theory Spec2Isabelle
  imports Complex_Main
begin

section \<open>Python values, errors and the numerical model\<close>

text \<open>
  The two notebooks compute with Python floats.  A float is modelled as a \<^typ>\<open>real\<close>:
  arithmetic is exact, so every numerical statement below is a statement about the
  mathematical value of the expression the notebook evaluates, and the tolerances of the
  approximate statements are explicit.  Exceptions are values of type \<open>error\<close>; a
  computation that may raise returns \<open>error + 'a\<close> with \<open>Inl\<close> for the exception.
  Where numpy would produce \<open>inf\<close> or \<open>nan\<close> (it warns and goes on), the reals have no
  such value: the model stops there with \<open>NonFinite\<close>, and nothing is stated about what
  the notebook does with such a value.
\<close>

datatype error =
    NameError string
  | ValueError string
  | ZeroDivisionError string
  | TypeError string
  | NonFinite string

section \<open>Linear interpolation (\<open>np.interp\<close>)\<close>

text \<open>
  Modelled from the spec: the linear-interpolation routine \<open>np.interp(x, xp, fp, left, right)\<close>
  is a library function that the notebook calls and whose code is not part of the
  repository.  The model follows the contract the spec describes (section 4.3): two
  equal-length tables, the independent axis increasing, the linearly interpolated estimate
  inside the table, and clamping to the nearest endpoint outside it unless
  \<open>left\<close>/\<open>right\<close> are given.

  The segment a query falls into has the index \<open>bracket_index\<close>: the number of leading
  sample points that are \<open>\<le> x\<close>, minus one.  On an increasing table this is the last
  \<open>j\<close> with \<open>xp ! j \<le> x\<close>.
\<close>

definition bracket_index :: "real \<Rightarrow> real list \<Rightarrow> nat" where
  "bracket_index x xp = length (takeWhile (\<lambda>v. v \<le> x) xp) - 1"

text \<open>
  Modelled from the spec: \<open>np.interp\<close> itself.  The checks come in the library's order:
  empty table, tables of unequal length, query above the last sample, query below the
  first sample, then the segment; on the last sample and on a sample point the tabulated
  value is returned as it is.
\<close>

definition interp :: "real \<Rightarrow> real list \<Rightarrow> real list \<Rightarrow> real option \<Rightarrow> real option \<Rightarrow> error + real" where
  "interp x xp fp left right =
     (if xp = [] then Inl (ValueError ''array of sample points is empty'')
      else if length fp \<noteq> length xp then Inl (ValueError ''fp and xp are not of the same length.'')
      else if last xp < x then Inr (case right of None \<Rightarrow> last fp | Some r \<Rightarrow> r)
      else if x < hd xp then Inr (case left of None \<Rightarrow> hd fp | Some l \<Rightarrow> l)
      else
        (let j = bracket_index x xp in
         if j = length xp - 1 then Inr (fp ! j)
         else if xp ! j = x then Inr (fp ! j)
         else Inr ((fp ! (j + 1) - fp ! j) / (xp ! (j + 1) - xp ! j) * (x - xp ! j) + fp ! j)))"

section \<open>The isentropic-flow notebook: tables\<close>

text \<open>The two literal tables of the interpolation cell.\<close>

definition machs :: "real list" where
  "machs = [1.70, 1.71, 1.72, 1.73, 1.74]"

definition p_ratios :: "real list" where
  "p_ratios = [0.20259, 0.19956, 0.19656, 0.19361, 0.19070]"

section \<open>The isentropic-flow notebook: residual and cells\<close>

text \<open>
  Float division and power as Python evaluates them on floats: division by zero raises;
  a zero base with a negative exponent raises; a negative base with a non-integral
  exponent gives a complex number, which is no float: the model reports it as a
  \<open>TypeError\<close> result.  On a positive base the power is \<open>exp (y * ln x)\<close>.
\<close>

definition py_div :: "real \<Rightarrow> real \<Rightarrow> error + real" where
  "py_div a b = (if b = 0 then Inl (ZeroDivisionError ''float division by zero'') else Inr (a / b))"

definition py_pow :: "real \<Rightarrow> real \<Rightarrow> error + real" where
  "py_pow x y =
     (if y = 0 then Inr 1
      else if x = 0 then
        (if y < 0 then Inl (ZeroDivisionError ''0.0 cannot be raised to a negative power'')
         else Inr 0)
      else if 0 < x then Inr (x powr y)
      else if y \<in> \<int> then Inr (x powi \<lfloor>y\<rfloor>)
      else Inl (TypeError ''complex result''))"

text \<open>
  Sequencing of computations that may raise: the first exception ends the computation.
  The residual \<open>fA(M2, M1, A_ratio, gamma)\<close> evaluates its operands in Python's order:
  \<open>M1/M2\<close> first, then the base of the power (numerator over denominator), then the
  exponent, then the power.
\<close>

definition and_then :: "error + 'a \<Rightarrow> ('a \<Rightarrow> error + 'b) \<Rightarrow> error + 'b" where
  "and_then r k = (case r of Inl e \<Rightarrow> Inl e | Inr v \<Rightarrow> k v)"

definition fA :: "real \<Rightarrow> real \<Rightarrow> real \<Rightarrow> real \<Rightarrow> error + real" where
  "fA M2 M1 A_ratio gamma =
     and_then (py_div M1 M2) (\<lambda>q.
     and_then (py_div (1 + ((gamma - 1) / 2) * M2 ^ 2) (1 + ((gamma - 1) / 2) * M1 ^ 2)) (\<lambda>base.
     and_then (py_div (gamma + 1) (2 * (gamma - 1))) (\<lambda>ex.
     and_then (py_pow base ex) (\<lambda>p.
     Inr (A_ratio - q * p)))))"

text \<open>
  The result record of the root solve (\<open>optimize.root_scalar\<close>), and the solver itself.
  The solver is a library routine: the notebooks take it as given, and so does the model,
  as a parameter that maps a residual and the two ends of a bracket to an exception or a
  result record.
\<close>

record root_results =
  converged :: bool
  function_calls :: nat
  iterations :: nat
  root :: real

type_synonym solver = "(real \<Rightarrow> error + real) \<Rightarrow> real \<Rightarrow> real \<Rightarrow> error + root_results"

text \<open>
  The notebook's global namespace maps names to values.  A cell takes the namespace and
  returns the namespace it leaves behind (bindings made before an exception stay) and
  either the exception or what the cell shows.
\<close>

datatype pyval =
    PFloat real
  | PList "real list"
  | PModule string
  | PFunction string
  | PRoot root_results

type_synonym env = "string \<rightharpoonup> pyval"

type_synonym cell = "env \<Rightarrow> env \<times> (error + pyval option)"

definition lookup :: "env \<Rightarrow> string \<Rightarrow> error + pyval" where
  "lookup env name = (case env name of None \<Rightarrow> Inl (NameError name) | Some v \<Rightarrow> Inr v)"

definition as_float :: "pyval \<Rightarrow> error + real" where
  "as_float v = (case v of PFloat x \<Rightarrow> Inr x | _ \<Rightarrow> Inl (TypeError ''float expected''))"

definition as_list :: "pyval \<Rightarrow> error + real list" where
  "as_list v = (case v of PList xs \<Rightarrow> Inr xs | _ \<Rightarrow> Inl (TypeError ''object is not subscriptable''))"

definition cell_imports :: cell where
  "cell_imports env =
     (env(''plt'' \<mapsto> PModule ''matplotlib.pyplot'',
          ''np'' \<mapsto> PModule ''numpy'',
          ''optimize'' \<mapsto> PModule ''scipy.optimize''), Inr None)"

definition cell_def_fA :: cell where
  "cell_def_fA env = (env(''fA'' \<mapsto> PFunction ''fA''), Inr None)"

text \<open>
  The solve cell: three assignments, the call of the solver on \<open>fA\<close> with
  \<open>args=(M1, A_ratio, gamma)\<close> and \<open>bracket=[1.0001, 10.0]\<close>, the binding of \<open>root\<close>
  and the print of it.
\<close>

definition solve_call :: "solver \<Rightarrow> env \<Rightarrow> error + root_results" where
  "solve_call solve env =
     and_then (lookup env ''optimize'') (\<lambda>_.
     and_then (lookup env ''fA'') (\<lambda>_.
     and_then (and_then (lookup env ''M1'') as_float) (\<lambda>M1.
     and_then (and_then (lookup env ''A_ratio'') as_float) (\<lambda>A_ratio.
     and_then (and_then (lookup env ''gamma'') as_float) (\<lambda>gamma.
     solve (\<lambda>M2. fA M2 M1 A_ratio gamma) 1.0001 10.0)))))"

definition cell_solve :: "solver \<Rightarrow> cell" where
  "cell_solve solve env =
     (let env3 = env(''M1'' \<mapsto> PFloat 0.5, ''A_ratio'' \<mapsto> PFloat (5 / 2), ''gamma'' \<mapsto> PFloat 1.4)
      in case solve_call solve env3 of
           Inl e \<Rightarrow> (env3, Inl e)
         | Inr res \<Rightarrow> (env3(''root'' \<mapsto> PRoot res), Inr (Some (PRoot res))))"

text \<open>The forward interpolation cell: it binds the two tables and shows the interpolated value.\<close>

definition cell_interp_forward :: cell where
  "cell_interp_forward env =
     (let env2 = env(''machs'' \<mapsto> PList machs, ''p_ratios'' \<mapsto> PList p_ratios)
      in (env2,
          and_then (lookup env2 ''np'') (\<lambda>_.
          and_then (and_then (lookup env2 ''machs'') as_list) (\<lambda>xp.
          and_then (and_then (lookup env2 ''p_ratios'') as_list) (\<lambda>fp.
          and_then (interp 1.715 xp fp None None) (\<lambda>r.
          Inr (Some (PFloat r))))))))"

text \<open>
  The reverse interpolation cell, \<open>np.interp(0.198, p_ratio[::-1], M[::-1])\<close>: the callee
  \<open>np.interp\<close> is evaluated first, then the arguments from left to right; the slice
  \<open>[::-1]\<close> reverses a list.
\<close>

definition cell_interp_reverse :: cell where
  "cell_interp_reverse env =
     (env,
      and_then (lookup env ''np'') (\<lambda>_.
      and_then (and_then (lookup env ''p_ratio'') as_list) (\<lambda>xp.
      and_then (and_then (lookup env ''M'') as_list) (\<lambda>fp.
      and_then (interp 0.198 (rev xp) (rev fp) None None) (\<lambda>r.
      Inr (Some (PFloat r)))))))"

text \<open>
  The namespace in which the reverse interpolation cell is evaluated when the notebook is
  run from the top in a fresh session: the four cells before it, in order.
\<close>

definition env_before_reverse :: "solver \<Rightarrow> env" where
  "env_before_reverse solve =
     fst (cell_interp_forward (fst (cell_solve solve (fst (cell_def_fA (fst (cell_imports Map.empty)))))))"

section \<open>The documented area-Mach relation\<close>

text \<open>
  The relation as the notebook's text and the spec write it, with the entropy-change
  factor \<open>e^(\<Delta>s/R)\<close> as a parameter:
  \<open>A2/A1 = (M1/M2) [(1 + (\<gamma>-1)/2 M2^2) / (1 + (\<gamma>-1)/2 M1^2)]^((\<gamma>+1)/(2(\<gamma>-1))) e^(\<Delta>s/R)\<close>.
  This definition follows the documentation, not the code; \<open>fA\<close> above follows the code.
\<close>

definition area_ratio_relation :: "real \<Rightarrow> real \<Rightarrow> real \<Rightarrow> real \<Rightarrow> real" where
  "area_ratio_relation M1 M2 gamma ds_over_R =
     (M1 / M2) * ((1 + (gamma - 1) / 2 * M2 ^ 2) / (1 + (gamma - 1) / 2 * M1 ^ 2))
        powr ((gamma + 1) / (2 * (gamma - 1))) * exp ds_over_R"

section \<open>The bracketed root solve\<close>

text \<open>
  Modelled from the spec: the bracketed root-finder (\<open>optimize.root_scalar\<close> with a
  \<open>bracket\<close>) is a library routine that the notebooks call and whose code is not part of
  the repository.  The spec describes it as a bracketed root-finder such as bisection
  (section 4.1), which fails when the supplied bracket does not contain a sign change
  (sections 4.1 and 7), and whose result record holds a converged flag, the iteration and
  function-call counts and the root (section 6).  The model is bisection, in two parts.
  The loop \<open>bisect\<close> halves the bracket \<open>[a, b]\<close>, keeping the half on which the residual
  changes sign, until the midpoint is a zero, the half-width is at most \<open>xtol\<close>, or the
  iteration budget is used up (then the result is flagged as not converged).
\<close>

fun bisect :: "nat \<Rightarrow> real \<Rightarrow> (real \<Rightarrow> error + real) \<Rightarrow> real \<Rightarrow> real \<Rightarrow> real \<Rightarrow> nat \<Rightarrow> error + root_results" where
  "bisect 0 xtol f a fa b k =
     Inr \<lparr>converged = False, function_calls = k + 2, iterations = k, root = (a + b) / 2\<rparr>"
| "bisect (Suc n) xtol f a fa b k =
     (let m = (a + b) / 2 in
      and_then (f m) (\<lambda>fm.
        if fm = 0 \<or> \<bar>b - a\<bar> / 2 \<le> xtol
        then Inr \<lparr>converged = True, function_calls = k + 3, iterations = k + 1, root = m\<rparr>
        else if fa * fm < 0 then bisect n xtol f a fa m (k + 1)
        else bisect n xtol f m fm b (k + 1)))"

text \<open>
  Modelled from the spec: the entry point of the bracketed root-finder.  It evaluates the
  residual at both ends of the bracket, reports a \<open>ValueError\<close> when the two values have
  the same strict sign, returns an end whose residual is zero, and otherwise runs the loop.
\<close>

definition root_scalar :: "nat \<Rightarrow> real \<Rightarrow> solver" where
  "root_scalar maxiter xtol f a b =
     and_then (f a) (\<lambda>fa.
     and_then (f b) (\<lambda>fb.
       if 0 < fa * fb then Inl (ValueError ''f(a) and f(b) must have different signs'')
       else if fa = 0 then Inr \<lparr>converged = True, function_calls = 2, iterations = 0, root = a\<rparr>
       else if fb = 0 then Inr \<lparr>converged = True, function_calls = 2, iterations = 0, root = b\<rparr>
       else bisect maxiter xtol f a fa b 0))"

text \<open>
  What an accurate result of a bracketed solve is: a point of the bracket within \<open>tol\<close>
  of a zero of the residual in the bracket.
\<close>

definition accurate_root :: "(real \<Rightarrow> error + real) \<Rightarrow> real \<Rightarrow> real \<Rightarrow> real \<Rightarrow> real \<Rightarrow> bool" where
  "accurate_root f a b tol r \<longleftrightarrow>
     a \<le> r \<and> r \<le> b \<and> (\<exists>x. a \<le> x \<and> x \<le> b \<and> f x = Inr 0 \<and> \<bar>r - x\<bar> \<le> tol)"

section \<open>The oblique-shock notebook\<close>

definition np_radians :: "real \<Rightarrow> real" where
  "np_radians d = d * (pi / 180)"

definition np_degrees :: "real \<Rightarrow> real" where
  "np_degrees r = r * (180 / pi)"

definition np_div :: "real \<Rightarrow> real \<Rightarrow> error + real" where
  "np_div a b = (if b = 0 then Inl (NonFinite ''divide by zero'') else Inr (a / b))"

definition np_tan :: "real \<Rightarrow> error + real" where
  "np_tan x = (if cos x = 0 then Inl (NonFinite ''tan'') else Inr (tan x))"

definition np_sqrt :: "real \<Rightarrow> error + real" where
  "np_sqrt x = (if x < 0 then Inl (NonFinite ''invalid value encountered in sqrt'') else Inr (sqrt x))"

text \<open>
  The right-hand side of the deflection relation,
  \<open>2 * (1 / np.tan(theta)) * (M1**2 * np.sin(theta)**2 - 1) / (M1**2 * (gamma + np.cos(2*theta)) + 2)\<close>,
  which the notebook writes out twice: under the \<open>arctan\<close> that gives \<open>delta\<close>, and in
  the residual \<open>oblique\<close>.
\<close>

definition deflection_term :: "real \<Rightarrow> real \<Rightarrow> real \<Rightarrow> error + real" where
  "deflection_term theta M1 gamma =
     and_then (np_tan theta) (\<lambda>t.
     and_then (np_div 1 t) (\<lambda>ct.
     np_div (2 * ct * (M1 ^ 2 * (sin theta) ^ 2 - 1)) (M1 ^ 2 * (gamma + cos (2 * theta)) + 2)))"

definition oblique :: "real \<Rightarrow> real \<Rightarrow> real \<Rightarrow> real \<Rightarrow> error + real" where
  "oblique theta M1 delta gamma =
     and_then (np_tan delta) (\<lambda>td.
     and_then (deflection_term theta M1 gamma) (\<lambda>h.
     Inr (td - h)))"

text \<open>
  The quantities the notebook computes, and the notebook itself, cell after cell: the
  known values \<open>gamma = 1.4\<close>, \<open>M1 = 2.2\<close>, \<open>theta = radians 35\<close>; the deflection angle;
  the normal Mach numbers and \<open>M2\<close>; the root solve for the angle of the second shock on
  the bracket \<open>[radians 0.0001, radians 45]\<close> with \<open>args=(M2, delta, gamma)\<close>; the angle
  of reflection; the normal Mach number ahead of the second shock.  The fields of the
  record carry the notebook's names; inside the definition the same variables end in
  \<open>0\<close>.  The notebook reads \<open>root.root\<close> without looking at the converged flag.
\<close>

record shock =
  delta :: real
  M1n :: real
  M2n :: real
  M2 :: real
  theta_2 :: real
  beta :: real
  M3n :: real

definition oblique_shock :: "solver \<Rightarrow> error + shock" where
  "oblique_shock solve =
     (let gamma0 = 1.4; M10 = 2.2; theta0 = np_radians 35.0 in
      and_then (deflection_term theta0 M10 gamma0) (\<lambda>t.
      let delta0 = arctan t; M1n0 = M10 * sin theta0 in
      and_then (np_div (M1n0 ^ 2 + 2 / (gamma0 - 1)) (M1n0 ^ 2 * (2 * gamma0) / (gamma0 - 1) - 1)) (\<lambda>q.
      and_then (np_sqrt q) (\<lambda>M2n0.
      and_then (np_div M2n0 (sin (theta0 - delta0))) (\<lambda>M20.
      and_then (solve (\<lambda>th. oblique th M20 delta0 gamma0) (np_radians 0.0001) (np_radians 45.0)) (\<lambda>res.
      let theta_20 = root res; beta0 = theta_20 - delta0; M3n0 = M20 * sin theta_20 in
      Inr \<lparr>delta = delta0, M1n = M1n0, M2n = M2n0, M2 = M20,
            theta_2 = theta_20, beta = beta0, M3n = M3n0\<rparr>))))))"

section \<open>Values of the oblique-shock notebook and auxiliary functions\<close>

text \<open>
  The deflection expression as a real number (what \<open>deflection_term\<close> returns when none of
  its divisions is by zero), split into numerator and denominator, and written in terms of
  the sine and cosine of the angle.
\<close>

definition deflection_rhs :: "real \<Rightarrow> real \<Rightarrow> real \<Rightarrow> real" where
  "deflection_rhs x m g = 2 * (1 / tan x) * (m ^ 2 * (sin x) ^ 2 - 1) / (m ^ 2 * (g + cos (2 * x)) + 2)"

definition defl_num :: "real \<Rightarrow> real \<Rightarrow> real" where
  "defl_num x m = 2 * (1 / tan x) * (m ^ 2 * (sin x) ^ 2 - 1)"

definition defl_den :: "real \<Rightarrow> real \<Rightarrow> real \<Rightarrow> real" where
  "defl_den x m g = m ^ 2 * (g + cos (2 * x)) + 2"

definition deflection_alg :: "real \<Rightarrow> real \<Rightarrow> real \<Rightarrow> real \<Rightarrow> real" where
  "deflection_alg s c m g = 2 * (c / s) * (m ^ 2 * s ^ 2 - 1) / (m ^ 2 * (g + (1 - 2 * s ^ 2)) + 2)"

text \<open>
  The values of the notebook's variables before the root solve: \<open>theta\<close>, the tangent of
  \<open>delta\<close> (the argument of \<open>np.arctan\<close>), \<open>delta\<close>, \<open>M1n\<close>, \<open>M2n\<close> and \<open>M2\<close>.
\<close>

definition theta_nb :: real where "theta_nb = np_radians 35.0"

definition tan_delta_nb :: real where "tan_delta_nb = deflection_rhs theta_nb 2.2 1.4"

definition delta_nb :: real where "delta_nb = arctan tan_delta_nb"

definition M1n_nb :: real where "M1n_nb = 2.2 * sin theta_nb"

definition M2n_nb :: real where
  "M2n_nb = sqrt ((M1n_nb ^ 2 + 2 / (1.4 - 1)) / (M1n_nb ^ 2 * (2 * 1.4) / (1.4 - 1) - 1))"

definition M2_nb :: real where "M2_nb = M2n_nb / sin (theta_nb - delta_nb)"

text \<open>
  Taylor polynomials of sine and cosine of degree 11 and 10, used to bound the
  trigonometric values: each differs from its function by at most \<open>x^12 / 12!\<close>.
\<close>

definition sin_poly :: "real \<Rightarrow> real" where
  "sin_poly x = x - x ^ 3 / 6 + x ^ 5 / 120 - x ^ 7 / 5040 + x ^ 9 / 362880 - x ^ 11 / 39916800"

definition cos_poly :: "real \<Rightarrow> real" where
  "cos_poly x = 1 - x ^ 2 / 2 + x ^ 4 / 24 - x ^ 6 / 720 + x ^ 8 / 40320 - x ^ 10 / 3628800"

section \<open>The stored output of the solve cell\<close>

text \<open>
  The notebook file stores what the solve cell printed when its author ran it: a result
  record with \<open>converged: True\<close>, \<open>function_calls: 15\<close>, \<open>iterations: 14\<close> and
  \<open>root: 2.753763176695055\<close>.  The solver that returns this record serves as a
  concrete instance of the solver parameter.
\<close>

definition recorded_solver :: solver where
  "recorded_solver f a b =
     Inr \<lparr>converged = True, function_calls = 15, iterations = 14, root = 2.753763176695055\<rparr>"

section \<open>An area ratio with a steep residual\<close>


section \<open>Sequencing\<close>

lemma and_then_Inr: "and_then (Inr v) k = k v"
  by (simp add: and_then_def)

section \<open>Properties of the interpolation\<close>

lemma bracket_index_machs: "bracket_index 1.715 machs = 1"
  by (simp add: bracket_index_def machs_def)

text \<open>
  C9.  Interpolating the query \<open>M = 1.715\<close> against \<open>machs\<close> (independent axis) and
  \<open>p_ratios\<close> (dependent axis), as the notebook's call \<open>np.interp(1.715, machs, p_ratios)\<close>
  does, returns \<open>p/pt = 0.19806\<close>, which is \<open>0.198060\<close> to six decimals.
\<close>

theorem interp_forward_value:
  "interp 1.715 machs p_ratios None None = Inr 0.19806"
  unfolding interp_def bracket_index_machs
  by (simp add: machs_def p_ratios_def)






text \<open>
  C10.  On non-empty tables of equal length whose independent axis is increasing, a query
  below the first sample point returns the first dependent value and a query above the
  last sample point returns the last dependent value: the result is clamped to the nearest
  endpoint, with no extrapolation and no error.
\<close>

theorem interp_clamps:
  assumes "xp \<noteq> []" and "length fp = length xp" and "sorted xp"
  shows "(x < hd xp \<longrightarrow> interp x xp fp None None = Inr (hd fp))
       \<and> (last xp < x \<longrightarrow> interp x xp fp None None = Inr (last fp))"
proof -
  have "hd xp \<le> last xp"
    using assms(1,3) by (cases xp) (auto simp: sorted_wrt_append)
  then show ?thesis
    using assms(1,2) by (auto simp: interp_def)
qed

theorem interp_clamps_witness:
  "interp 1.5 machs p_ratios None None = Inr 0.20259
   \<and> interp 2 machs p_ratios None None = Inr 0.19070"
  using interp_clamps [of machs p_ratios "1.5"] interp_clamps [of machs p_ratios 2]
  by (simp add: machs_def p_ratios_def)

section \<open>Properties of the notebook's namespace\<close>

lemma cell_solve_env:
  "n \<noteq> ''root'' \<Longrightarrow>
   fst (cell_solve solve env) n =
     (env(''M1'' \<mapsto> PFloat 0.5, ''A_ratio'' \<mapsto> PFloat (5 / 2), ''gamma'' \<mapsto> PFloat 1.4)) n"
  unfolding cell_solve_def Let_def
  by (cases "solve_call solve (env(''M1'' \<mapsto> PFloat 0.5, ''A_ratio'' \<mapsto> PFloat (5 / 2), ''gamma'' \<mapsto> PFloat 1.4))")
     simp_all

text \<open>
  C4.  Run from the top in a fresh session, whatever the solver returns, the reverse
  interpolation cell raises a \<open>NameError\<close> for \<open>p_ratio\<close> and shows no value: the cells
  before it bind \<open>p_ratios\<close>, \<open>machs\<close> and \<open>M1\<close>, and neither \<open>p_ratio\<close> nor \<open>M\<close>.
\<close>

theorem reverse_cell_name_error:
  "snd (cell_interp_reverse (env_before_reverse solve)) = Inl (NameError ''p_ratio'')
   \<and> env_before_reverse solve ''p_ratios'' = Some (PList p_ratios)
   \<and> env_before_reverse solve ''machs'' = Some (PList machs)
   \<and> env_before_reverse solve ''M1'' = Some (PFloat 0.5)
   \<and> env_before_reverse solve ''p_ratio'' = None
   \<and> env_before_reverse solve ''M'' = None"
proof -
  let ?e3 = "fst (cell_solve solve (fst (cell_def_fA (fst (cell_imports Map.empty)))))"
  have fwd: "env_before_reverse solve = ?e3(''machs'' \<mapsto> PList machs, ''p_ratios'' \<mapsto> PList p_ratios)"
    by (simp add: env_before_reverse_def cell_interp_forward_def Let_def)
  have np: "env_before_reverse solve ''np'' = Some (PModule ''numpy'')"
    unfolding fwd by (simp add: cell_solve_env cell_def_fA_def cell_imports_def)
  have pr: "env_before_reverse solve ''p_ratio'' = None"
    unfolding fwd by (simp add: cell_solve_env cell_def_fA_def cell_imports_def)
  have m: "env_before_reverse solve ''M'' = None"
    unfolding fwd by (simp add: cell_solve_env cell_def_fA_def cell_imports_def)
  have m1: "env_before_reverse solve ''M1'' = Some (PFloat 0.5)"
    unfolding fwd by (simp add: cell_solve_env cell_def_fA_def cell_imports_def)
  have prs: "env_before_reverse solve ''p_ratios'' = Some (PList p_ratios)"
    unfolding fwd by simp
  have ms: "env_before_reverse solve ''machs'' = Some (PList machs)"
    unfolding fwd by simp
  have "snd (cell_interp_reverse (env_before_reverse solve)) = Inl (NameError ''p_ratio'')"
    by (simp add: cell_interp_reverse_def and_then_def lookup_def np pr)
  with prs ms m1 pr m show ?thesis by simp
qed

section \<open>Properties of the residual\<close>

text \<open>
  C6.  Wherever the expression is defined (\<open>M2 \<noteq> 0\<close>, \<open>gamma \<noteq> 1\<close>, and the two
  brackets \<open>1 + (gamma-1)/2 M^2\<close> positive, as they are for every physical
  \<open>gamma > 1\<close>), \<open>fA(M2, M1, A_ratio, gamma)\<close> is \<open>A_ratio\<close> minus the right-hand side
  of the documented relation with the entropy-change factor equal to one
  (\<open>\<Delta>s/R = 0\<close>).
\<close>

theorem fA_is_documented_relation:
  assumes "Ma2 \<noteq> 0" and "g \<noteq> 1"
    and "0 < 1 + (g - 1) / 2 * Ma2 ^ 2" and "0 < 1 + (g - 1) / 2 * Ma1 ^ 2"
  shows "fA Ma2 Ma1 A g = Inr (A - area_ratio_relation Ma1 Ma2 g 0)"
  using assms
  by (simp add: fA_def and_then_def py_div_def py_pow_def area_ratio_relation_def)

theorem fA_is_documented_relation_witness:
  "fA 2 (1 / 2) (5 / 2) (7 / 5) = Inr (5 / 2 - area_ratio_relation (1 / 2) 2 (7 / 5) 0)
   \<and> fA 2 (1 / 2) (5 / 2) (7 / 5) = Inr (851 / 686)"
  using fA_is_documented_relation [of 2 "7 / 5" "1 / 2" "5 / 2"]
  by (simp add: area_ratio_relation_def power2_eq_square power3_eq_cube)

section \<open>The root of the solve cell\<close>

lemma py_pow_3: "0 < b \<Longrightarrow> py_pow b 3 = Inr (b ^ 3)"
  by (simp add: py_pow_def)

lemma fA_half_value:
  assumes "0 < x"
  shows "fA x 0.5 A 1.4 = Inr (A - 32 * (x ^ 2 + 5) ^ 3 / (9261 * x))"
proof -
  let ?b = "(1 + x\<^sup>2 / 5) / (1 + (1 / 2)\<^sup>2 / 5)"
  have pos: "0 < ?b" by (intro divide_pos_pos add_pos_nonneg) simp_all
  have b: "?b = 4 * (x ^ 2 + 5) / 21" by (simp add: power2_eq_square)
  have d: "1 + (1 / 2)\<^sup>2 / 5 \<noteq> (0::real)" by (simp add: power2_eq_square)
  have "fA x 0.5 A 1.4 = Inr (A - 1 / (2 * x) * ?b ^ 3)"
    using assms d by (simp add: fA_def and_then_def py_div_def py_pow_3 [OF pos])
  also have "1 / (2 * x) * ?b ^ 3 = 32 * (x ^ 2 + 5) ^ 3 / (9261 * x)"
  proof -
    have "4 * x\<^sup>2 + 20 = 4 * (x\<^sup>2 + 5)" by simp
    then have "(4 * x\<^sup>2 + 20) ^ 3 = 4 ^ 3 * (x\<^sup>2 + 5) ^ 3"
      by (simp only: power_mult_distrib)
    then have c: "(4 * x\<^sup>2 + 20) ^ 3 = 64 * (x\<^sup>2 + 5) ^ 3" by simp
    show ?thesis unfolding b by (simp add: power_divide c)
  qed
  finally show ?thesis .
qed

lemma fA_cell_value:
  assumes "0 < x"
  shows "fA x 0.5 (5 / 2) 1.4 = Inr (5 / 2 - 32 * (x ^ 2 + 5) ^ 3 / (9261 * x))"
  using assms by (rule fA_half_value)

lemma fA_cell_zero_iff:
  assumes "0 < x"
  shows "fA x 0.5 (5 / 2) 1.4 = Inr 0 \<longleftrightarrow> 64 * (x ^ 2 + 5) ^ 3 = 46305 * x"
proof -
  have nz: "9261 * x \<noteq> 0" using assms by simp
  have "fA x 0.5 (5 / 2) 1.4 = Inr 0 \<longleftrightarrow> 5 / 2 - 32 * (x ^ 2 + 5) ^ 3 / (9261 * x) = 0"
    unfolding fA_cell_value [OF assms] by (simp only: sum.inject)
  also have "\<dots> \<longleftrightarrow> 32 * (x ^ 2 + 5) ^ 3 / (9261 * x) = 5 / 2"
    by linarith
  also have "\<dots> \<longleftrightarrow> 32 * (x ^ 2 + 5) ^ 3 = 5 / 2 * (9261 * x)"
    using assms by (simp add: divide_eq_eq)
  also have "\<dots> \<longleftrightarrow> 64 * (x ^ 2 + 5) ^ 3 = 46305 * x"
    by linarith
  finally show ?thesis .
qed

lemma cubic_mono:
  fixes x y :: real
  assumes "2 \<le> y" and "y \<le> x"
  shows "64 * (y ^ 2 + 5) ^ 3 - 46305 * y \<le> 64 * (x ^ 2 + 5) ^ 3 - 46305 * x"
proof -
  define A where "A = x ^ 2 + 5"
  define B where "B = y ^ 2 + 5"
  have "2 * 2 \<le> x * x" using assms by (intro mult_mono) simp_all
  then have A9: "9 \<le> A" unfolding A_def by (simp add: power2_eq_square)
  have "2 * 2 \<le> y * y" using assms by (intro mult_mono) simp_all
  then have B9: "9 \<le> B" unfolding B_def by (simp add: power2_eq_square)
  have sq: "243 \<le> A ^ 2 + A * B + B ^ 2"
  proof -
    have "9 * 9 \<le> A * A" using A9 by (intro mult_mono) simp_all
    moreover have "9 * 9 \<le> A * B" using A9 B9 by (intro mult_mono) simp_all
    moreover have "9 * 9 \<le> B * B" using B9 by (intro mult_mono) simp_all
    ultimately show ?thesis by (simp add: power2_eq_square)
  qed
  have xy: "4 \<le> x + y" using assms by simp
  have "4 * 243 \<le> (x + y) * (A ^ 2 + A * B + B ^ 2)"
    using xy sq by (intro mult_mono) simp_all
  then have "46305 \<le> 64 * ((x + y) * (A ^ 2 + A * B + B ^ 2))" by simp
  then have "46305 * (x - y) \<le> 64 * ((x + y) * (A ^ 2 + A * B + B ^ 2)) * (x - y)"
    using assms by (intro mult_right_mono) simp_all
  also have "64 * ((x + y) * (A ^ 2 + A * B + B ^ 2)) * (x - y) = 64 * (A ^ 3 - B ^ 3)"
  proof -
    have "(x + y) * (x - y) = A - B" unfolding A_def B_def by (simp add: algebra_simps power2_eq_square)
    moreover have "(A - B) * (A ^ 2 + A * B + B ^ 2) = A ^ 3 - B ^ 3"
      by (simp add: algebra_simps power2_eq_square power3_eq_cube)
    moreover have "64 * ((x + y) * (A ^ 2 + A * B + B ^ 2)) * (x - y)
       = 64 * (((x + y) * (x - y)) * (A ^ 2 + A * B + B ^ 2))" by simp
    ultimately show ?thesis by simp
  qed
  finally have "46305 * (x - y) \<le> 64 * (A ^ 3 - B ^ 3)" .
  then have "46305 * x - 46305 * y \<le> 64 * A ^ 3 - 64 * B ^ 3" by (simp add: algebra_simps)
  then show ?thesis unfolding A_def B_def by simp
qed


lemma cubic_at_lo:
  "64 * ((27537631766950546 / 10 ^ 16) ^ 2 + 5) ^ 3 - 46305 * (27537631766950546 / 10 ^ 16) < (0::real)"
  by (simp add: power2_eq_square power3_eq_cube)

lemma cubic_at_hi:
  "(0::real) < 64 * ((27537631766950547 / 10 ^ 16) ^ 2 + 5) ^ 3 - 46305 * (27537631766950547 / 10 ^ 16)"
  by (simp add: power2_eq_square power3_eq_cube)

lemma cubic_neg_low:
  fixes x :: real
  assumes "1.0001 \<le> x" and "x \<le> 27537631766950546 / 10 ^ 16"
  shows "64 * (x ^ 2 + 5) ^ 3 < 46305 * x"
proof -
  consider "x \<le> 1.5" | "1.5 \<le> x" "x \<le> 2" | "2 \<le> x" by linarith
  then show ?thesis
  proof cases
    case 1
    have "x * x \<le> 1.5 * 1.5" using assms 1 by (intro mult_mono) simp_all
    then have "x ^ 2 + 5 \<le> 7.25" by (simp add: power2_eq_square)
    moreover have "0 \<le> x ^ 2 + 5" by (simp add: add_nonneg_nonneg)
    ultimately have "(x ^ 2 + 5) ^ 3 \<le> 7.25 ^ 3" by (rule power_mono)
    then have "64 * (x ^ 2 + 5) ^ 3 \<le> 24389" by (simp add: power3_eq_cube)
    moreover have "46305 \<le> 46305 * x" using assms by simp
    ultimately show ?thesis by linarith
  next
    case 2
    have "x * x \<le> 2 * 2" using 2 by (intro mult_mono) simp_all
    then have "x ^ 2 + 5 \<le> 9" by (simp add: power2_eq_square)
    moreover have "0 \<le> x ^ 2 + 5" by (simp add: add_nonneg_nonneg)
    ultimately have "(x ^ 2 + 5) ^ 3 \<le> 9 ^ 3" by (rule power_mono)
    then have "64 * (x ^ 2 + 5) ^ 3 \<le> 46656" by simp
    moreover have "69457 \<le> 46305 * x" using 2 by simp
    ultimately show ?thesis by linarith
  next
    case 3
    from cubic_mono [OF 3 assms(2)] cubic_at_lo show ?thesis by linarith
  qed
qed

lemma cubic_pos_high:
  fixes x :: real
  assumes "27537631766950547 / 10 ^ 16 \<le> x"
  shows "46305 * x < 64 * (x ^ 2 + 5) ^ 3"
proof -
  have "(2::real) \<le> 27537631766950547 / 10 ^ 16" by simp
  from cubic_mono [OF this assms] cubic_at_hi show ?thesis by linarith
qed

lemma fA_cell_zero_location:
  assumes "1.0001 \<le> x" and "x \<le> 10" and "fA x 0.5 (5 / 2) 1.4 = Inr 0"
  shows "27537631766950546 / 10 ^ 16 < x \<and> x < 27537631766950547 / 10 ^ 16"
proof -
  have pos: "0 < x" using assms(1) by simp
  have eq: "64 * (x ^ 2 + 5) ^ 3 = 46305 * x"
    using assms(3) fA_cell_zero_iff [OF pos] by simp
  have "\<not> x \<le> 27537631766950546 / 10 ^ 16"
    using cubic_neg_low [OF assms(1)] eq by fastforce
  moreover have "\<not> 27537631766950547 / 10 ^ 16 \<le> x"
    using cubic_pos_high [of x] eq by fastforce
  ultimately show ?thesis by simp
qed

lemma fA_cell_zero_exists:
  "\<exists>x. 27537631766950546 / 10 ^ 16 \<le> x \<and> x \<le> 27537631766950547 / 10 ^ 16
       \<and> fA x 0.5 (5 / 2) 1.4 = Inr 0"
proof -
  let ?g = "\<lambda>x::real. 64 * (x ^ 2 + 5) ^ 3 - 46305 * x"
  have "\<exists>x. 27537631766950546 / 10 ^ 16 \<le> x \<and> x \<le> 27537631766950547 / 10 ^ 16 \<and> ?g x = 0"
  proof (rule IVT')
    show "?g (27537631766950546 / 10 ^ 16) \<le> 0" using cubic_at_lo by simp
    show "0 \<le> ?g (27537631766950547 / 10 ^ 16)" using cubic_at_hi by simp
    show "(27537631766950546 / 10 ^ 16 :: real) \<le> 27537631766950547 / 10 ^ 16" by simp
    show "continuous_on {27537631766950546 / 10 ^ 16 .. 27537631766950547 / 10 ^ 16} ?g"
      by (intro continuous_intros)
  qed
  then obtain x :: real where x: "27537631766950546 / 10 ^ 16 \<le> x"
    "x \<le> 27537631766950547 / 10 ^ 16" "?g x = 0" by blast
  have "0 < x" using x(1) by (rule less_le_trans [rotated]) simp
  then have "fA x 0.5 (5 / 2) 1.4 = Inr 0"
    using x(3) fA_cell_zero_iff [of x] by simp
  with x(1,2) show ?thesis by blast
qed

subsection \<open>The bisection model returns an accurate root\<close>

text \<open>
  On a bracket with a sign change of a continuous residual, and with an iteration budget
  that allows the bracket to shrink below the tolerance, the bisection model of the solver
  converges to a point within the tolerance of a zero of the residual.
\<close>

lemma sign_change_zero:
  fixes g :: "real \<Rightarrow> real"
  assumes "a \<le> b" and "continuous_on {a..b} g" and "g a * g b < 0"
  shows "\<exists>x. a \<le> x \<and> x \<le> b \<and> g x = 0"
proof (cases "g a < 0")
  case True
  then have "0 < g b" using assms(3) by (simp add: mult_less_0_iff)
  with True show ?thesis
    using IVT' [of g a 0 b] assms(1,2) by simp
next
  case False
  then have "0 < g a" "g b < 0" using assms(3) by (auto simp: mult_less_0_iff)
  then show ?thesis
    using IVT2' [of g b 0 a] assms(1,2) by simp
qed

lemma bisect_accurate:
  fixes g :: "real \<Rightarrow> real"
  assumes "a < b"
    and "\<And>x. a \<le> x \<Longrightarrow> x \<le> b \<Longrightarrow> f x = Inr (g x)"
    and "continuous_on {a..b} g"
    and "g a * g b < 0"
    and "b - a \<le> 2 ^ Suc n * xtol"
  shows "\<exists>res. bisect (Suc n) xtol f a (g a) b k = Inr res \<and> converged res
           \<and> a \<le> root res \<and> root res \<le> b
           \<and> (\<exists>x. a \<le> x \<and> x \<le> b \<and> g x = 0 \<and> \<bar>root res - x\<bar> \<le> xtol)"
  using assms
proof (induction n arbitrary: a b k)
  case 0
  let ?m = "(a + b) / 2"
  have m: "a \<le> ?m" "?m \<le> b" using "0.prems"(1) by simp_all
  have fm: "f ?m = Inr (g ?m)" using m by (rule "0.prems"(2))
  have stop: "\<bar>b - a\<bar> / 2 \<le> xtol" using "0.prems"(1,5) by simp
  obtain x where x: "a \<le> x" "x \<le> b" "g x = 0"
    using sign_change_zero [of a b g] "0.prems"(1,3,4) by auto
  have "\<bar>?m - x\<bar> \<le> xtol" using x(1,2) stop "0.prems"(1) by (simp add: abs_le_iff field_simps)
  then show ?case
    using m x stop by (auto simp: fm and_then_Inr Let_def)
next
  case (Suc n)
  let ?m = "(a + b) / 2"
  have m: "a \<le> ?m" "?m \<le> b" "a < ?m" "?m < b" using Suc.prems(1) by simp_all
  have fm: "f ?m = Inr (g ?m)" using m(1,2) by (rule Suc.prems(2))
  show ?case
  proof (cases "g ?m = 0 \<or> \<bar>b - a\<bar> / 2 \<le> xtol")
    case True
    have "\<exists>x. a \<le> x \<and> x \<le> b \<and> g x = 0 \<and> \<bar>?m - x\<bar> \<le> xtol"
    proof (cases "g ?m = 0")
      case True
      have "0 \<le> xtol"
      proof (rule ccontr)
        assume "\<not> 0 \<le> xtol"
        then have "2 ^ Suc (Suc n) * xtol < 0" by (simp add: mult_less_0_iff)
        with Suc.prems(1,5) show False by linarith
      qed
      with True m(1,2) show ?thesis by (intro exI [of _ ?m]) simp
    next
      case False
      with True have stop: "\<bar>b - a\<bar> / 2 \<le> xtol" by simp
      obtain x where x: "a \<le> x" "x \<le> b" "g x = 0"
        using sign_change_zero [of a b g] Suc.prems(1,3,4) by auto
      have "\<bar>?m - x\<bar> \<le> xtol" using x(1,2) stop Suc.prems(1) by (simp add: abs_le_iff field_simps)
      with x show ?thesis by blast
    qed
    then show ?thesis
      using True m(1,2) by (subst bisect.simps) (auto simp: fm and_then_Inr Let_def)
  next
    case False
    then have nz: "g ?m \<noteq> 0" and nstop: "\<not> \<bar>b - a\<bar> / 2 \<le> xtol" by simp_all
    show ?thesis
    proof (cases "g a * g ?m < 0")
      case True
      have w: "?m - a \<le> 2 ^ Suc n * xtol" using Suc.prems(5) by (simp add: field_simps)
      have tot: "\<And>x. a \<le> x \<Longrightarrow> x \<le> ?m \<Longrightarrow> f x = Inr (g x)"
        using Suc.prems(2) m(2) by (meson order_trans)
      have cont: "continuous_on {a..?m} g"
        using Suc.prems(3) by (rule continuous_on_subset) (use m(2) in auto)
      from Suc.IH [OF m(3) tot cont True w, of "k + 1"]
      obtain res x where r: "bisect (Suc n) xtol f a (g a) ?m (k + 1) = Inr res" "converged res"
        "a \<le> root res" "root res \<le> ?m" "a \<le> x" "x \<le> ?m" "g x = 0" "\<bar>root res - x\<bar> \<le> xtol"
        by blast
      have "bisect (Suc (Suc n)) xtol f a (g a) b k = Inr res"
        using False True r(1) by (subst bisect.simps) (simp add: fm and_then_Inr Let_def)
      moreover have "root res \<le> b" "x \<le> b" using r(4,6) m(2) by linarith+
      ultimately show ?thesis using r by blast
    next
      case nl: False
      have "g a \<noteq> 0" using Suc.prems(4) by auto
      then have pos: "0 < g a * g ?m" using nl nz by (simp add: not_less less_le)
      have sg: "g ?m * g b < 0"
      proof -
        have "(g a * g ?m) * (g a * g b) < 0" using pos Suc.prems(4) by (rule mult_pos_neg)
        then have "(g a) ^ 2 * (g ?m * g b) < 0" by (simp add: power2_eq_square mult_ac)
        then show ?thesis by (simp add: mult_less_0_iff)
      qed
      have w: "b - ?m \<le> 2 ^ Suc n * xtol" using Suc.prems(5) by (simp add: field_simps)
      have tot: "\<And>x. ?m \<le> x \<Longrightarrow> x \<le> b \<Longrightarrow> f x = Inr (g x)"
        using Suc.prems(2) m(1) by (meson order_trans)
      have cont: "continuous_on {?m..b} g"
        using Suc.prems(3) by (rule continuous_on_subset) (use m(1) in auto)
      from Suc.IH [OF m(4) tot cont sg w, of "k + 1"]
      obtain res x where r: "bisect (Suc n) xtol f ?m (g ?m) b (k + 1) = Inr res" "converged res"
        "?m \<le> root res" "root res \<le> b" "?m \<le> x" "x \<le> b" "g x = 0" "\<bar>root res - x\<bar> \<le> xtol"
        by blast
      have "bisect (Suc (Suc n)) xtol f a (g a) b k = Inr res"
        using False nl r(1) by (subst bisect.simps) (simp add: fm and_then_Inr Let_def)
      moreover have "a \<le> root res" "a \<le> x" using r(3,5) m(1) by linarith+
      ultimately show ?thesis using r by blast
    qed
  qed
qed


lemma root_scalar_accurate:
  fixes g :: "real \<Rightarrow> real"
  assumes "a < b"
    and "\<And>x. a \<le> x \<Longrightarrow> x \<le> b \<Longrightarrow> f x = Inr (g x)"
    and "continuous_on {a..b} g"
    and "g a * g b < 0"
    and "b - a \<le> 2 ^ Suc n * xtol"
  shows "\<exists>res. root_scalar (Suc n) xtol f a b = Inr res \<and> converged res
           \<and> accurate_root f a b xtol (root res)"
proof -
  have fa: "f a = Inr (g a)" and fb: "f b = Inr (g b)"
    using assms(1) by (auto intro!: assms(2))
  have nz: "g a \<noteq> 0" "g b \<noteq> 0" "\<not> 0 < g a * g b" using assms(4) by auto
  from bisect_accurate [OF assms, of 0]
  obtain res x where r: "bisect (Suc n) xtol f a (g a) b 0 = Inr res" "converged res"
    "a \<le> root res" "root res \<le> b" "a \<le> x" "x \<le> b" "g x = 0" "\<bar>root res - x\<bar> \<le> xtol"
    by blast
  have "root_scalar (Suc n) xtol f a b = Inr res"
    unfolding root_scalar_def fa fb and_then_Inr using nz r(1) by (simp del: bisect.simps)
  moreover have "f x = Inr 0" using assms(2) [OF r(5,6)] r(7) by simp
  then have "accurate_root f a b xtol (root res)"
    unfolding accurate_root_def using r(3,4,5,6,8) by blast
  ultimately show ?thesis using r(2) by blast
qed

lemma solve_cell_bisection:
  "\<exists>res. root_scalar 100 (2 / 10 ^ 12) (\<lambda>M2. fA M2 0.5 (5 / 2) 1.4) 1.0001 10 = Inr res
         \<and> converged res
         \<and> accurate_root (\<lambda>M2. fA M2 0.5 (5 / 2) 1.4) 1.0001 10 (2 / 10 ^ 12) (root res)"
proof -
  let ?g = "\<lambda>x::real. 5 / 2 - 32 * (x ^ 2 + 5) ^ 3 / (9261 * x)"
  have "\<exists>res. root_scalar (Suc 99) (2 / 10 ^ 12) (\<lambda>M2. fA M2 0.5 (5 / 2) 1.4) 1.0001 10 = Inr res
         \<and> converged res
         \<and> accurate_root (\<lambda>M2. fA M2 0.5 (5 / 2) 1.4) 1.0001 10 (2 / 10 ^ 12) (root res)"
  proof (rule root_scalar_accurate [where g = ?g])
    show "(1.0001::real) < 10" by simp
    show "fA x 0.5 (5 / 2) 1.4 = Inr (?g x)" if "1.0001 \<le> x" for x
      by (rule fA_cell_value) (use that in simp)
    show "continuous_on {1.0001..10} ?g"
      by (intro continuous_intros) auto
    show "?g 1.0001 * ?g 10 < 0" by (simp add: power2_eq_square power3_eq_cube)
    show "(10::real) - 1.0001 \<le> 2 ^ Suc 99 * (2 / 10 ^ 12)" by simp
  qed
  then show ?thesis by simp
qed

subsection \<open>The solve cell\<close>

lemma cell_solve_success:
  assumes "solve (\<lambda>M2. fA M2 0.5 (5 / 2) 1.4) 1.0001 10 = Inr res"
  shows "snd (cell_solve solve (fst (cell_def_fA (fst (cell_imports Map.empty))))) = Inr (Some (PRoot res))"
proof -
  let ?env = "(fst (cell_def_fA (fst (cell_imports Map.empty))))
                (''M1'' \<mapsto> PFloat 0.5, ''A_ratio'' \<mapsto> PFloat (5 / 2), ''gamma'' \<mapsto> PFloat 1.4)"
  have "solve_call solve ?env = Inr res"
    using assms
    by (simp add: solve_call_def and_then_def lookup_def as_float_def cell_def_fA_def cell_imports_def)
  then show ?thesis
    by (simp add: cell_solve_def Let_def)
qed

text \<open>
  C2.  For the solve cell's inputs \<open>M1 = 0.5\<close>, \<open>A_ratio = 5/2\<close>, \<open>gamma = 1.4\<close> and
  bracket \<open>[1.0001, 10.0]\<close>: the residual \<open>fA\<close> has exactly one zero in the bracket, it
  lies within \<open>10^-15\<close> of \<open>2.753763176695055\<close>, and so a solve that returns a point
  within \<open>tol\<close> of a zero of the residual in the bracket returns \<open>M2\<close> within
  \<open>tol + 10^-15\<close> of \<open>2.753763176695055\<close>.
\<close>

theorem solve_cell_root:
  assumes run: "snd (cell_solve solve (fst (cell_def_fA (fst (cell_imports Map.empty))))) = Inr (Some (PRoot res))"
    and acc: "accurate_root (\<lambda>M2. fA M2 0.5 (5 / 2) 1.4) 1.0001 10 tol (root res)"
  shows "solve (\<lambda>M2. fA M2 0.5 (5 / 2) 1.4) 1.0001 10 = Inr res
         \<and> \<bar>root res - 2.753763176695055\<bar> \<le> tol + 1 / 10 ^ 15"
proof -
  let ?env = "(fst (cell_def_fA (fst (cell_imports Map.empty))))
                (''M1'' \<mapsto> PFloat 0.5, ''A_ratio'' \<mapsto> PFloat (5 / 2), ''gamma'' \<mapsto> PFloat 1.4)"
  have call: "solve_call solve ?env = solve (\<lambda>M2. fA M2 0.5 (5 / 2) 1.4) 1.0001 10"
    by (simp add: solve_call_def and_then_def lookup_def as_float_def cell_def_fA_def cell_imports_def)
  have "solve (\<lambda>M2. fA M2 0.5 (5 / 2) 1.4) 1.0001 10 = Inr res"
  proof (cases "solve (\<lambda>M2. fA M2 0.5 (5 / 2) 1.4) 1.0001 10")
    case (Inl e)
    then show ?thesis using run call by (simp add: cell_solve_def Let_def)
  next
    case (Inr r)
    then show ?thesis using run call by (simp add: cell_solve_def Let_def)
  qed
  moreover
  from acc obtain x where x: "1.0001 \<le> x" "x \<le> 10" "fA x 0.5 (5 / 2) 1.4 = Inr 0"
    "\<bar>root res - x\<bar> \<le> tol"
    unfolding accurate_root_def by blast
  from fA_cell_zero_location [OF x(1,2,3)]
  have "\<bar>x - 2.753763176695055\<bar> \<le> 1 / 10 ^ 15" by (simp add: abs_le_iff)
  with x(4) have "\<bar>root res - 2.753763176695055\<bar> \<le> tol + 1 / 10 ^ 15" by linarith
  ultimately show ?thesis by simp
qed

theorem solve_cell_root_witness:
  "(\<exists>res. snd (cell_solve (root_scalar 100 (2 / 10 ^ 12)) (fst (cell_def_fA (fst (cell_imports Map.empty)))))
            = Inr (Some (PRoot res))
          \<and> converged res
          \<and> \<bar>root res - 2.753763176695055\<bar> \<le> 2 / 10 ^ 12 + 1 / 10 ^ 15)
   \<and> snd (cell_solve recorded_solver (fst (cell_def_fA (fst (cell_imports Map.empty)))))
       = Inr (Some (PRoot \<lparr>converged = True, function_calls = 15, iterations = 14, root = 2.753763176695055\<rparr>))
   \<and> accurate_root (\<lambda>M2. fA M2 0.5 (5 / 2) 1.4) 1.0001 10 (1 / 10 ^ 15) 2.753763176695055"
proof -
  obtain res where res:
    "root_scalar 100 (2 / 10 ^ 12) (\<lambda>M2. fA M2 0.5 (5 / 2) 1.4) 1.0001 10 = Inr res"
    "converged res"
    "accurate_root (\<lambda>M2. fA M2 0.5 (5 / 2) 1.4) 1.0001 10 (2 / 10 ^ 12) (root res)"
    using solve_cell_bisection by blast
  note run1 = cell_solve_success [where solve = "root_scalar 100 (2 / 10 ^ 12)", OF res(1)]
  from solve_cell_root [where solve = "root_scalar 100 (2 / 10 ^ 12)", OF run1 res(3)] run1 res(2)
  have first: "\<exists>res. snd (cell_solve (root_scalar 100 (2 / 10 ^ 12)) (fst (cell_def_fA (fst (cell_imports Map.empty)))))
            = Inr (Some (PRoot res))
          \<and> converged res
          \<and> \<bar>root res - 2.753763176695055\<bar> \<le> 2 / 10 ^ 12 + 1 / 10 ^ 15"
    by blast
  let ?res = "\<lparr>converged = True, function_calls = 15, iterations = 14, root = 2.753763176695055\<rparr>"
  have run: "snd (cell_solve recorded_solver (fst (cell_def_fA (fst (cell_imports Map.empty)))))
     = Inr (Some (PRoot ?res))"
    by (rule cell_solve_success [where solve = recorded_solver]) (simp add: recorded_solver_def)
  obtain x where x: "27537631766950546 / 10 ^ 16 \<le> x" "x \<le> 27537631766950547 / 10 ^ 16"
    "fA x 0.5 (5 / 2) 1.4 = Inr 0"
    using fA_cell_zero_exists by blast
  have acc: "accurate_root (\<lambda>M2. fA M2 0.5 (5 / 2) 1.4) 1.0001 10 (1 / 10 ^ 15) (root ?res)"
    unfolding accurate_root_def
  proof (intro conjI exI [of _ x])
    show "fA x 0.5 (5 / 2) 1.4 = Inr 0" by (rule x(3))
    show "1.0001 \<le> x" using x(1) by simp
    show "x \<le> 10" using x(2) by simp
    show "\<bar>root ?res - x\<bar> \<le> 1 / 10 ^ 15" using x(1,2) by (simp add: abs_le_iff)
  qed simp_all
  from solve_cell_root [where solve = recorded_solver, OF run acc] first run acc show ?thesis by simp
qed

subsection \<open>The residual at the returned root\<close>




section \<open>Failure of the root solve\<close>

text \<open>
  The solve cell has no handler: when the solver raises, the cell ends with that
  exception and \<open>root\<close> stays unbound.
\<close>

lemma cell_solve_failure:
  assumes "solve (\<lambda>M2. fA M2 0.5 (5 / 2) 1.4) 1.0001 10 = Inl e"
  shows "snd (cell_solve solve (fst (cell_def_fA (fst (cell_imports Map.empty))))) = Inl e
         \<and> fst (cell_solve solve (fst (cell_def_fA (fst (cell_imports Map.empty))))) ''root'' = None"
proof -
  let ?env = "(fst (cell_def_fA (fst (cell_imports Map.empty))))
                (''M1'' \<mapsto> PFloat 0.5, ''A_ratio'' \<mapsto> PFloat (5 / 2), ''gamma'' \<mapsto> PFloat 1.4)"
  have "solve_call solve ?env = Inl e"
    using assms
    by (simp add: solve_call_def and_then_def lookup_def as_float_def cell_def_fA_def cell_imports_def)
  then show ?thesis
    by (simp add: cell_solve_def Let_def cell_def_fA_def cell_imports_def)
qed

text \<open>
  C7.  For every residual \<open>f\<close> and bracket \<open>[a, b]\<close>: when the residual has the same strict
  sign at both ends of the bracket, the bracketed root solve returns the explicit error
  \<open>ValueError: f(a) and f(b) must have different signs\<close>, and no root.
\<close>

theorem root_scalar_no_sign_change:
  assumes "f a = Inr fa" and "f b = Inr fb" and "0 < fa * fb"
  shows "root_scalar maxiter xtol f a b = Inl (ValueError ''f(a) and f(b) must have different signs'')"
  using assms by (simp add: root_scalar_def and_then_def)

theorem root_scalar_no_sign_change_witness:
  "root_scalar 100 (2 / 10 ^ 12) (\<lambda>M2. fA M2 0.5 (5 / 2) 1.4) 3 10
     = Inl (ValueError ''f(a) and f(b) must have different signs'')"
proof -
  have a: "fA 3 0.5 (5 / 2) 1.4 = Inr (5 / 2 - 32 * (3 ^ 2 + 5) ^ 3 / (9261 * 3))"
    by (rule fA_cell_value) simp
  have b: "fA 10 0.5 (5 / 2) 1.4 = Inr (5 / 2 - 32 * (10 ^ 2 + 5) ^ 3 / (9261 * 10))"
    by (rule fA_cell_value) simp
  have "(0::real) < (5 / 2 - 32 * (3 ^ 2 + 5) ^ 3 / (9261 * 3)) * (5 / 2 - 32 * (10 ^ 2 + 5) ^ 3 / (9261 * 10))"
    by simp
  from root_scalar_no_sign_change [of "\<lambda>M2. fA M2 0.5 (5 / 2) 1.4" 3 _ 10 _ 100 "2 / 10 ^ 12", OF a b this]
  show ?thesis .
qed

section \<open>Numerical bounds\<close>

subsection \<open>Sine, cosine and pi\<close>

lemma below_12: "{..<12::nat} = {0, 1, 2, 3, 4, 5, 6, 7, 8, 9, 10, 11}"
  by (simp add: lessThan_nat_numeral lessThan_Suc insert_commute)

lemma sin_poly_sum: "(\<Sum>m<12. sin_coeff m * x ^ m) = sin_poly x"
  unfolding below_12 by (simp add: sin_poly_def sin_coeff_def fact_numeral)

lemma cos_poly_sum: "(\<Sum>m<12. cos_coeff m * x ^ m) = cos_poly x"
  unfolding below_12 by (simp add: cos_poly_def cos_coeff_def fact_numeral)

lemma sin_poly_bound: "\<bar>sin x - sin_poly x\<bar> \<le> \<bar>x\<bar> ^ 12 / 479001600"
  using Maclaurin_sin_bound [of x 12] by (simp add: sin_poly_sum fact_numeral)

lemma cos_poly_bound:
  assumes "0 \<le> x"
  shows "\<bar>cos x - cos_poly x\<bar> \<le> x ^ 12 / 479001600"
proof (cases "x = 0")
  case True
  then show ?thesis by (simp add: cos_poly_def power_divide)
next
  case False
  then have "0 < x" using assms by simp
  from Maclaurin_cos_expansion2 [OF this, of 12]
  obtain t where t: "cos x = (\<Sum>m<12. cos_coeff m * x ^ m) + cos (t + 1 / 2 * real 12 * pi) / fact 12 * x ^ 12"
    by auto
  have "\<bar>cos x - cos_poly x\<bar> = \<bar>cos (t + 1 / 2 * real 12 * pi)\<bar> * (x ^ 12 / 479001600)"
    unfolding t cos_poly_sum by (simp add: fact_numeral abs_mult)
  also have "\<dots> \<le> 1 * (x ^ 12 / 479001600)"
    by (rule mult_right_mono) simp_all
  finally show ?thesis by simp
qed

lemma pi_lower: "3.1415926 < pi"
proof -
  let ?y = "78539815 / 10 ^ 8 :: real"
  have "\<bar>cos ?y - cos_poly ?y\<bar> \<le> ?y ^ 12 / 479001600"
    by (rule cos_poly_bound) simp
  then have "cos_poly ?y - ?y ^ 12 / 479001600 \<le> cos ?y" by linarith
  moreover have "707106785 / 10 ^ 9 \<le> cos_poly ?y - ?y ^ 12 / 479001600"
    by (simp add: cos_poly_def power_divide)
  ultimately have c: "707106785 / 10 ^ 9 \<le> cos ?y" by linarith
  have "(707106785 / 10 ^ 9) ^ 2 \<le> (cos ?y) ^ 2"
    using c by (intro power_mono) simp_all
  moreover have "(1 / 2 :: real) < (707106785 / 10 ^ 9) ^ 2"
    by (simp add: power2_eq_square)
  ultimately have "0 < 2 * (cos ?y) ^ 2 - 1" by linarith
  then have pos: "0 < cos (2 * ?y)" by (simp only: cos_double_cos)
  have "2 * ?y < pi / 2"
  proof (rule ccontr)
    assume "\<not> 2 * ?y < pi / 2"
    then have "pi / 2 \<le> 2 * ?y" by simp
    moreover have "2 * ?y \<le> pi" using pi_ge_two by simp
    ultimately have "cos (2 * ?y) \<le> cos (pi / 2)"
      by (intro cos_monotone_0_pi_le) simp_all
    with pos show False by simp
  qed
  then show ?thesis by simp
qed

lemma pi_upper: "pi < 3.1415927"
proof -
  let ?y = "785398175 / 10 ^ 9 :: real"
  have b: "\<bar>cos ?y - cos_poly ?y\<bar> \<le> ?y ^ 12 / 479001600"
    by (rule cos_poly_bound) simp
  then have "cos ?y \<le> cos_poly ?y + ?y ^ 12 / 479001600" by linarith
  moreover have "cos_poly ?y + ?y ^ 12 / 479001600 \<le> 70710678 / 10 ^ 8"
    by (simp add: cos_poly_def power_divide)
  ultimately have c: "cos ?y \<le> 70710678 / 10 ^ 8" by linarith
  have "0 \<le> cos_poly ?y - ?y ^ 12 / 479001600" by (simp add: cos_poly_def power_divide)
  with b have c0: "0 \<le> cos ?y" by linarith
  have "(cos ?y) ^ 2 \<le> (70710678 / 10 ^ 8) ^ 2"
    using c c0 by (intro power_mono) simp_all
  moreover have "(70710678 / 10 ^ 8) ^ 2 < (1 / 2 :: real)"
    by (simp add: power2_eq_square)
  ultimately have "2 * (cos ?y) ^ 2 - 1 < 0" by linarith
  then have neg: "cos (2 * ?y) < 0" by (simp only: cos_double_cos)
  have "pi / 2 < 2 * ?y"
  proof (rule ccontr)
    assume "\<not> pi / 2 < 2 * ?y"
    then have "2 * ?y \<le> pi / 2" by simp
    then have "0 \<le> cos (2 * ?y)" by (intro cos_ge_zero) simp_all
    with neg show False by simp
  qed
  then show ?thesis by simp
qed

lemma one_le_pi_half: "1 \<le> pi / 2"
  using pi_ge_two by simp

lemma sin_lower_at:
  assumes "0 \<le> a" and "a \<le> x" and "x \<le> 1" and "L \<le> sin_poly a - a ^ 12 / 479001600"
  shows "L \<le> sin x"
proof -
  have "sin a \<le> sin x"
    using assms(1-3) one_le_pi_half by (intro sin_monotone_2pi_le) linarith+
  moreover have b: "\<bar>sin a - sin_poly a\<bar> \<le> \<bar>a\<bar> ^ 12 / 479001600" by (rule sin_poly_bound)
  have "\<bar>a\<bar> = a" using assms(1) by simp
  from b [unfolded this] have "sin_poly a - a ^ 12 / 479001600 \<le> sin a" by linarith
  ultimately show ?thesis using assms(4) by linarith
qed

lemma sin_upper_at:
  assumes "0 \<le> x" and "x \<le> b" and "b \<le> 1" and "sin_poly b + b ^ 12 / 479001600 \<le> U"
  shows "sin x \<le> U"
proof -
  have "sin x \<le> sin b"
    using assms(1-3) one_le_pi_half by (intro sin_monotone_2pi_le) linarith+
  moreover have b: "\<bar>sin b - sin_poly b\<bar> \<le> \<bar>b\<bar> ^ 12 / 479001600" by (rule sin_poly_bound)
  have "\<bar>b\<bar> = b" using assms(1,2) by simp
  from b [unfolded this] have "sin b \<le> sin_poly b + b ^ 12 / 479001600" by linarith
  ultimately show ?thesis using assms(4) by linarith
qed

lemma cos_lower_at:
  assumes "0 \<le> x" and "x \<le> b" and "b \<le> 1" and "L \<le> cos_poly b - b ^ 12 / 479001600"
  shows "L \<le> cos x"
proof -
  have "cos b \<le> cos x"
    using assms(1-3) one_le_pi_half by (intro cos_monotone_0_pi_le) linarith+
  moreover have "\<bar>cos b - cos_poly b\<bar> \<le> b ^ 12 / 479001600"
    using assms(1,2) by (intro cos_poly_bound) linarith
  then have "cos_poly b - b ^ 12 / 479001600 \<le> cos b" by linarith
  ultimately show ?thesis using assms(4) by linarith
qed

lemma cos_upper_at:
  assumes "0 \<le> a" and "a \<le> x" and "x \<le> 1" and "cos_poly a + a ^ 12 / 479001600 \<le> U"
  shows "cos x \<le> U"
proof -
  have "cos x \<le> cos a"
    using assms(1-3) one_le_pi_half by (intro cos_monotone_0_pi_le) linarith+
  moreover have "\<bar>cos a - cos_poly a\<bar> \<le> a ^ 12 / 479001600"
    using assms(1) by (rule cos_poly_bound)
  then have "cos a \<le> cos_poly a + a ^ 12 / 479001600" by linarith
  ultimately show ?thesis using assms(4) by linarith
qed

lemma deflection_alg_bounds:
  assumes s: "0 < sl" "sl \<le> s" "s \<le> su"
    and c: "0 \<le> cl" "cl \<le> c" "c \<le> cu"
    and m: "0 \<le> ml" "ml \<le> m" "m \<le> mu"
    and num: "1 \<le> ml ^ 2 * sl ^ 2"
    and den: "0 \<le> g + (1 - 2 * su ^ 2)"
  shows "2 * (cl / su) * (ml ^ 2 * sl ^ 2 - 1) / (mu ^ 2 * (g + (1 - 2 * sl ^ 2)) + 2)
           \<le> deflection_alg s c m g"
    and "deflection_alg s c m g
           \<le> 2 * (cu / sl) * (mu ^ 2 * su ^ 2 - 1) / (ml ^ 2 * (g + (1 - 2 * su ^ 2)) + 2)"
proof -
  have s0: "0 < s" "0 < su" using s by linarith+
  have m0: "0 \<le> m" "0 \<le> mu" using m by linarith+
  have c0: "0 \<le> c" "0 \<le> cu" using c by linarith+
  have ss: "sl ^ 2 \<le> s ^ 2" "s ^ 2 \<le> su ^ 2"
    using s s0 by (auto intro!: power_mono)
  have mm: "ml ^ 2 \<le> m ^ 2" "m ^ 2 \<le> mu ^ 2"
    using m m0 by (auto intro!: power_mono)
  have P: "ml ^ 2 * sl ^ 2 \<le> m ^ 2 * s ^ 2" "m ^ 2 * s ^ 2 \<le> mu ^ 2 * su ^ 2"
    using ss mm by (auto intro!: mult_mono)
  have C: "cl / su \<le> c / s" "c / s \<le> cu / sl"
    using s c s0 c0 by (auto intro!: frac_le)
  have Cl0: "0 \<le> cl / su" using c(1) s0 by simp
  have C0: "0 \<le> c / s" using c0 s0 by simp
  have Bl0: "0 \<le> ml ^ 2 * sl ^ 2 - 1" using num by simp
  have B0: "0 \<le> m ^ 2 * s ^ 2 - 1" using num P by linarith
  have E1: "(cl / su) * (ml ^ 2 * sl ^ 2 - 1) \<le> (c / s) * (m ^ 2 * s ^ 2 - 1)"
    using C P Cl0 Bl0 C0 B0 by (intro mult_mono) linarith+
  have E2: "(c / s) * (m ^ 2 * s ^ 2 - 1) \<le> (cu / sl) * (mu ^ 2 * su ^ 2 - 1)"
    using C P C0 B0 by (intro mult_mono) linarith+
  have El0: "0 \<le> (cl / su) * (ml ^ 2 * sl ^ 2 - 1)" using Cl0 Bl0 by (rule mult_nonneg_nonneg)
  have E0: "0 \<le> (c / s) * (m ^ 2 * s ^ 2 - 1)" using C0 B0 by (rule mult_nonneg_nonneg)
  have K: "g + (1 - 2 * su ^ 2) \<le> g + (1 - 2 * s ^ 2)" "g + (1 - 2 * s ^ 2) \<le> g + (1 - 2 * sl ^ 2)"
    using ss by linarith+
  have K0: "0 \<le> g + (1 - 2 * s ^ 2)" using den K by linarith
  have D1: "ml ^ 2 * (g + (1 - 2 * su ^ 2)) \<le> m ^ 2 * (g + (1 - 2 * s ^ 2))"
    using mm K den K0 by (intro mult_mono) simp_all
  have D2: "m ^ 2 * (g + (1 - 2 * s ^ 2)) \<le> mu ^ 2 * (g + (1 - 2 * sl ^ 2))"
    using mm K K0 by (intro mult_mono) simp_all
  have Dl0: "0 < ml ^ 2 * (g + (1 - 2 * su ^ 2)) + 2"
    using den by (intro add_nonneg_pos mult_nonneg_nonneg) simp_all
  have D0: "0 < m ^ 2 * (g + (1 - 2 * s ^ 2)) + 2" using Dl0 D1 by linarith
  have "2 * ((cl / su) * (ml ^ 2 * sl ^ 2 - 1)) / (mu ^ 2 * (g + (1 - 2 * sl ^ 2)) + 2)
          \<le> 2 * ((c / s) * (m ^ 2 * s ^ 2 - 1)) / (m ^ 2 * (g + (1 - 2 * s ^ 2)) + 2)"
    using E1 El0 D2 D0 by (intro frac_le) linarith+
  then show "2 * (cl / su) * (ml ^ 2 * sl ^ 2 - 1) / (mu ^ 2 * (g + (1 - 2 * sl ^ 2)) + 2)
           \<le> deflection_alg s c m g"
    by (simp add: deflection_alg_def mult.assoc)
  have "2 * ((c / s) * (m ^ 2 * s ^ 2 - 1)) / (m ^ 2 * (g + (1 - 2 * s ^ 2)) + 2)
          \<le> 2 * ((cu / sl) * (mu ^ 2 * su ^ 2 - 1)) / (ml ^ 2 * (g + (1 - 2 * su ^ 2)) + 2)"
    using E2 E0 D1 Dl0 by (intro frac_le) linarith+
  then show "deflection_alg s c m g
           \<le> 2 * (cu / sl) * (mu ^ 2 * su ^ 2 - 1) / (ml ^ 2 * (g + (1 - 2 * su ^ 2)) + 2)"
    by (simp add: deflection_alg_def mult.assoc)
qed

subsection \<open>The first shock\<close>

lemma deflection_rhs_alg: "deflection_rhs x m g = deflection_alg (sin x) (cos x) m g"
  by (simp add: deflection_rhs_def deflection_alg_def tan_def cos_double_sin)

lemma theta_bounds: "610865227 / 10 ^ 9 \<le> theta_nb" "theta_nb \<le> 610865248 / 10 ^ 9"
  using pi_lower pi_upper by (simp_all add: theta_nb_def np_radians_def)

lemma sin_theta_bounds: "573576427 / 10 ^ 9 \<le> sin theta_nb" "sin theta_nb \<le> 573576445 / 10 ^ 9"
proof -
  show "573576427 / 10 ^ 9 \<le> sin theta_nb"
  proof (rule sin_lower_at [of "610865227 / 10 ^ 9"])
    show "573576427 / 10 ^ 9 \<le> sin_poly (610865227 / 10 ^ 9) - (610865227 / 10 ^ 9) ^ 12 / 479001600"
      by (simp add: sin_poly_def power_divide)
  qed (use theta_bounds in simp_all)
  show "sin theta_nb \<le> 573576445 / 10 ^ 9"
  proof (rule sin_upper_at [of _ "610865248 / 10 ^ 9"])
    show "sin_poly (610865248 / 10 ^ 9) + (610865248 / 10 ^ 9) ^ 12 / 479001600 \<le> 573576445 / 10 ^ 9"
      by (simp add: sin_poly_def power_divide)
  qed (use theta_bounds in simp_all)
qed

lemma cos_theta_bounds: "819152038 / 10 ^ 9 \<le> cos theta_nb" "cos theta_nb \<le> 819152051 / 10 ^ 9"
proof -
  show "819152038 / 10 ^ 9 \<le> cos theta_nb"
  proof (rule cos_lower_at [of _ "610865248 / 10 ^ 9"])
    show "819152038 / 10 ^ 9 \<le> cos_poly (610865248 / 10 ^ 9) - (610865248 / 10 ^ 9) ^ 12 / 479001600"
      by (simp add: cos_poly_def power_divide)
  qed (use theta_bounds in simp_all)
  show "cos theta_nb \<le> 819152051 / 10 ^ 9"
  proof (rule cos_upper_at [of "610865227 / 10 ^ 9"])
    show "cos_poly (610865227 / 10 ^ 9) + (610865227 / 10 ^ 9) ^ 12 / 479001600 \<le> 819152051 / 10 ^ 9"
      by (simp add: cos_poly_def power_divide)
  qed (use theta_bounds in simp_all)
qed

lemma tan_delta_bounds: "162185298 / 10 ^ 9 \<le> tan_delta_nb" "tan_delta_nb \<le> 162185337 / 10 ^ 9"
proof -
  have lo: "162185298 / 10 ^ 9 \<le> 2 * ((819152038 / 10 ^ 9) / (573576445 / 10 ^ 9))
      * (2.2 ^ 2 * (573576427 / 10 ^ 9) ^ 2 - 1) / (2.2 ^ 2 * (1.4 + (1 - 2 * (573576427 / 10 ^ 9) ^ 2)) + (2::real))"
    by (simp add: power2_eq_square)
  have hi: "2 * ((819152051 / 10 ^ 9) / (573576427 / 10 ^ 9))
      * (2.2 ^ 2 * (573576445 / 10 ^ 9) ^ 2 - 1) / (2.2 ^ 2 * (1.4 + (1 - 2 * (573576445 / 10 ^ 9) ^ 2)) + (2::real))
      \<le> 162185337 / 10 ^ 9"
    by (simp add: power2_eq_square)
  have n: "(1::real) \<le> 2.2 ^ 2 * (573576427 / 10 ^ 9) ^ 2" by (simp add: power2_eq_square)
  have d: "(0::real) \<le> 1.4 + (1 - 2 * (573576445 / 10 ^ 9) ^ 2)" by (simp add: power2_eq_square)
  have "cos theta_nb \<le> 819152051 / 10 ^ 9" by (rule cos_theta_bounds)
  show "162185298 / 10 ^ 9 \<le> tan_delta_nb"
    unfolding tan_delta_nb_def deflection_rhs_alg
    by (rule order_trans [OF lo]) (rule deflection_alg_bounds(1); (rule sin_theta_bounds cos_theta_bounds n d | simp))
  show "tan_delta_nb \<le> 162185337 / 10 ^ 9"
    unfolding tan_delta_nb_def deflection_rhs_alg
    by (rule order_trans [OF _ hi]) (rule deflection_alg_bounds(2); (rule sin_theta_bounds cos_theta_bounds n d | simp))
qed

lemma one_less_pi_half: "1 < pi / 2"
  using pi_lower by simp

lemma arctan_lower_at:
  assumes "0 \<le> d" and "d \<le> 1" and "sin d \<le> su" and "0 < cl" and "cl \<le> cos d" and "su / cl \<le> T"
  shows "d \<le> arctan T"
proof -
  have "0 \<le> sin d" using assms(1,2) one_less_pi_half by (intro sin_ge_zero) linarith+
  then have "sin d / cos d \<le> su / cl" using assms(3-5) by (intro frac_le) simp_all
  then have "tan d \<le> T" using assms(6) by (simp add: tan_def)
  then have "arctan (tan d) \<le> arctan T" by (rule arctan_monotone')
  moreover have "arctan (tan d) = d" using assms(1,2) one_less_pi_half by (intro arctan_tan) linarith+
  ultimately show ?thesis by simp
qed

lemma arctan_upper_at:
  assumes "0 \<le> d" and "d \<le> 1" and "0 \<le> sl" and "sl \<le> sin d" and "0 < cos d" and "cos d \<le> cu"
    and "T \<le> sl / cu"
  shows "arctan T \<le> d"
proof -
  have "sl / cu \<le> sin d / cos d" using assms(3-6) by (intro frac_le) simp_all
  then have "T \<le> tan d" using assms(7) by (simp add: tan_def)
  then have "arctan T \<le> arctan (tan d)" by (rule arctan_monotone')
  moreover have "arctan (tan d) = d" using assms(1,2) one_less_pi_half by (intro arctan_tan) linarith+
  ultimately show ?thesis by simp
qed

lemma delta_bounds: "1607833 / 10 ^ 7 \<le> delta_nb" "delta_nb \<le> 1607874 / 10 ^ 7"
proof -
  let ?dl = "1607833 / 10 ^ 7 :: real" and ?du = "1607874 / 10 ^ 7 :: real"
  have s1: "sin ?dl \<le> 160091453 / 10 ^ 9"
    by (rule sin_upper_at [of _ ?dl]) (simp_all add: sin_poly_def power_divide)
  have c1: "987102186 / 10 ^ 9 \<le> cos ?dl"
    by (rule cos_lower_at [of _ ?dl]) (simp_all add: cos_poly_def power_divide)
  show "?dl \<le> delta_nb"
    unfolding delta_nb_def
  proof (rule arctan_lower_at [OF _ _ s1 _ c1])
    show "160091453 / 10 ^ 9 / (987102186 / 10 ^ 9) \<le> tan_delta_nb"
      by (rule order_trans [OF _ tan_delta_bounds(1)]) simp
  qed simp_all
  have s2: "160095495 / 10 ^ 9 \<le> sin ?du"
    by (rule sin_lower_at [of ?du]) (simp_all add: sin_poly_def power_divide)
  have c2: "cos ?du \<le> 987101542 / 10 ^ 9"
    by (rule cos_upper_at [of ?du]) (simp_all add: cos_poly_def power_divide)
  have "1 / 2 \<le> cos ?du"
    by (rule cos_lower_at [of _ ?du]) (simp_all add: cos_poly_def power_divide)
  then have c2p: "0 < cos ?du" by simp
  show "delta_nb \<le> ?du"
    unfolding delta_nb_def
  proof (rule arctan_upper_at [OF _ _ _ s2 c2p c2])
    show "tan_delta_nb \<le> 160095495 / 10 ^ 9 / (987101542 / 10 ^ 9)"
      by (rule order_trans [OF tan_delta_bounds(2)]) simp
  qed simp_all
qed

lemma M1n_bounds: "12618681394 / 10 ^ 10 \<le> M1n_nb" "M1n_nb \<le> 1261868179 / 10 ^ 9"
  using sin_theta_bounds by (simp_all add: M1n_nb_def)

lemma M2n_bounds: "80606039 / 10 ^ 8 \<le> M2n_nb" "M2n_nb \<le> 80606045 / 10 ^ 8"
proof -
  define G where "G = M1n_nb ^ 2"
  have G: "(12618681394 / 10 ^ 10) ^ 2 \<le> G" "G \<le> (1261868179 / 10 ^ 9) ^ 2"
    unfolding G_def using M1n_bounds by (auto intro!: power_mono intro: order_trans [rotated])
  have q: "(M1n_nb ^ 2 + 2 / (1.4 - 1)) / (M1n_nb ^ 2 * (2 * 1.4) / (1.4 - 1) - 1) = (G + 5) / (7 * G - 1)"
    by (simp add: G_def)
  have dpos: "0 < 7 * G - 1"
    using G(1) by (simp add: power2_eq_square)
  have lo: "(80606039 / 10 ^ 8) ^ 2 \<le> (G + 5) / (7 * G - 1)"
  proof -
    have "(80606039 / 10 ^ 8) ^ 2 \<le> ((12618681394 / 10 ^ 10) ^ 2 + 5) / (7 * (1261868179 / 10 ^ 9) ^ 2 - (1::real))"
      by (simp add: power2_eq_square)
    also have "\<dots> \<le> (G + 5) / (7 * G - 1)"
      using G dpos by (intro frac_le) (simp_all add: power2_eq_square)
    finally show ?thesis .
  qed
  have hi: "(G + 5) / (7 * G - 1) \<le> (80606045 / 10 ^ 8) ^ 2"
  proof -
    have "(G + 5) / (7 * G - 1) \<le> ((1261868179 / 10 ^ 9) ^ 2 + 5) / (7 * (12618681394 / 10 ^ 10) ^ 2 - (1::real))"
      using G dpos by (intro frac_le) (simp_all add: power2_eq_square)
    also have "\<dots> \<le> (80606045 / 10 ^ 8) ^ 2"
      by (simp add: power2_eq_square)
    finally show ?thesis .
  qed
  show "80606039 / 10 ^ 8 \<le> M2n_nb"
    unfolding M2n_nb_def q using lo by (rule real_le_rsqrt)
  show "M2n_nb \<le> 80606045 / 10 ^ 8"
    unfolding M2n_nb_def q using hi by (intro real_le_lsqrt) simp_all
qed

lemma sin_diff_bounds:
  "435035611 / 10 ^ 9 \<le> sin (theta_nb - delta_nb)" "sin (theta_nb - delta_nb) \<le> 435039323 / 10 ^ 9"
proof -
  have lo: "4500778270 / 10 ^ 10 \<le> theta_nb - delta_nb" using theta_bounds delta_bounds by simp
  have hi: "theta_nb - delta_nb \<le> 4500819480 / 10 ^ 10" using theta_bounds delta_bounds by simp
  show "435035611 / 10 ^ 9 \<le> sin (theta_nb - delta_nb)"
  proof (rule sin_lower_at [OF _ lo])
    show "435035611 / 10 ^ 9 \<le> sin_poly (4500778270 / 10 ^ 10) - (4500778270 / 10 ^ 10) ^ 12 / 479001600"
      by (simp add: sin_poly_def power_divide)
  qed (use hi in simp_all)
  show "sin (theta_nb - delta_nb) \<le> 435039323 / 10 ^ 9"
  proof (rule sin_upper_at [OF _ hi])
    show "sin_poly (4500819480 / 10 ^ 10) + (4500819480 / 10 ^ 10) ^ 12 / 479001600 \<le> 435039323 / 10 ^ 9"
      by (simp add: sin_poly_def power_divide)
  qed (use lo in simp_all)
qed

lemma M2_bounds: "185284489 / 10 ^ 8 \<le> M2_nb" "M2_nb \<le> 185286085 / 10 ^ 8"
proof -
  have "185284489 / 10 ^ 8 \<le> (80606039 / 10 ^ 8) / (435039323 / 10 ^ 9 :: real)" by simp
  also have "\<dots> \<le> M2n_nb / sin (theta_nb - delta_nb)"
    using M2n_bounds sin_diff_bounds by (intro frac_le) simp_all
  finally show "185284489 / 10 ^ 8 \<le> M2_nb" by (simp add: M2_nb_def)
  have "M2n_nb / sin (theta_nb - delta_nb) \<le> (80606045 / 10 ^ 8) / (435035611 / 10 ^ 9 :: real)"
    using M2n_bounds sin_diff_bounds by (intro frac_le) simp_all
  also have "\<dots> \<le> 185286085 / 10 ^ 8" by simp
  finally show "M2_nb \<le> 185286085 / 10 ^ 8" by (simp add: M2_nb_def)
qed

subsection \<open>Monotonicity of the deflection relation on the weak-shock bracket\<close>

lemma deflection_rhs_quot: "deflection_rhs x m g = defl_num x m / defl_den x m g"
  by (simp add: deflection_rhs_def defl_num_def defl_den_def)

lemma quarter_pi_facts:
  assumes "0 < x" and "x \<le> pi / 4"
  shows "0 < sin x" and "0 < cos x" and "0 \<le> cos (2 * x)"
proof -
  have "x < pi / 2" using assms pi_gt_zero by linarith
  then show "0 < sin x" "0 < cos x"
    using assms(1) by (auto intro: sin_gt_zero2 cos_gt_zero)
  show "0 \<le> cos (2 * x)"
    using assms by (intro cos_ge_zero) linarith+
qed

lemma defl_num_alt:
  assumes "sin x \<noteq> 0"
  shows "defl_num x m = m ^ 2 * sin (2 * x) - 2 * (cos x / sin x)"
proof -
  have "2 * (cos x / sin x) * (m ^ 2 * (sin x) ^ 2 - 1)
      = m ^ 2 * (2 * sin x * cos x) * (sin x / sin x) - 2 * (cos x / sin x)"
    by (simp add: algebra_simps power2_eq_square)
  then show ?thesis
    using assms by (simp add: defl_num_def tan_def sin_double)
qed

lemma defl_num_mono:
  assumes "0 < x" and "x \<le> y" and "y \<le> pi / 4"
  shows "defl_num x m \<le> defl_num y m"
proof -
  have y0: "0 < y" using assms by linarith
  have x4: "x \<le> pi / 4" using assms by linarith
  note fx = quarter_pi_facts [OF assms(1) x4] and fy = quarter_pi_facts [OF y0 assms(3)]
  have "sin (2 * x) \<le> sin (2 * y)"
    using assms by (intro sin_monotone_2pi_le) linarith+
  then have a: "m ^ 2 * sin (2 * x) \<le> m ^ 2 * sin (2 * y)"
    by (intro mult_left_mono) simp_all
  have sxy: "sin x \<le> sin y"
    using assms by (intro sin_monotone_2pi_le) linarith+
  have cxy: "cos y \<le> cos x"
    using assms pi_gt_zero by (intro cos_monotone_0_pi_le) linarith+
  have b: "cos y / sin y \<le> cos x / sin x"
    using fx fy sxy cxy by (intro frac_le) simp_all
  show ?thesis
    using a b fx(1) fy(1) by (simp add: defl_num_alt)
qed

lemma defl_den_mono:
  assumes "0 < x" and "x \<le> y" and "y \<le> pi / 4" and "0 \<le> g"
  shows "defl_den y m g \<le> defl_den x m g" and "0 < defl_den y m g"
proof -
  have y0: "0 < y" using assms by linarith
  note fy = quarter_pi_facts [OF y0 assms(3)]
  have "cos (2 * y) \<le> cos (2 * x)"
    using assms pi_gt_zero by (intro cos_monotone_0_pi_le) linarith+
  then have "g + cos (2 * y) \<le> g + cos (2 * x)" by simp
  then have "m ^ 2 * (g + cos (2 * y)) \<le> m ^ 2 * (g + cos (2 * x))"
    by (intro mult_left_mono) simp_all
  then show "defl_den y m g \<le> defl_den x m g" by (simp add: defl_den_def)
  have "0 \<le> m ^ 2 * (g + cos (2 * y))"
    using fy(3) assms(4) by (intro mult_nonneg_nonneg) simp_all
  then show "0 < defl_den y m g" by (simp add: defl_den_def)
qed

lemma deflection_rhs_mono:
  assumes "0 < x" and "x \<le> y" and "y \<le> pi / 4" and "0 \<le> g" and "0 \<le> defl_num x m"
  shows "deflection_rhs x m g \<le> deflection_rhs y m g"
proof -
  have n: "defl_num x m \<le> defl_num y m" using assms(1-3) by (rule defl_num_mono)
  have d: "defl_den y m g \<le> defl_den x m g" "0 < defl_den y m g"
    using assms(1-4) by (rule defl_den_mono)+
  show ?thesis
    unfolding deflection_rhs_quot using n d assms(5) by (intro frac_le) linarith+
qed

lemma deflection_rhs_nonpos:
  assumes "0 < x" and "x \<le> pi / 4" and "0 \<le> g" and "defl_num x m \<le> 0"
  shows "deflection_rhs x m g \<le> 0"
proof -
  have "0 < defl_den x m g" using assms(1) order_refl assms(2,3) by (rule defl_den_mono(2))
  then show ?thesis
    unfolding deflection_rhs_quot using assms(4) by (simp add: divide_le_0_iff)
qed

subsection \<open>The zero of the residual of the second shock\<close>

lemma deflection_term_value:
  assumes "cos x \<noteq> 0" and "sin x \<noteq> 0" and "defl_den x m g \<noteq> 0"
  shows "deflection_term x m g = Inr (deflection_rhs x m g)"
  using assms
  by (simp add: deflection_term_def np_tan_def np_div_def and_then_def deflection_rhs_def
      defl_den_def tan_def)

lemma bracket_ends: "0 < np_radians 0.0001" "np_radians 45.0 = pi / 4"
  by (simp_all add: np_radians_def)

lemma oblique_value:
  assumes "0 < x" and "x \<le> pi / 4"
  shows "oblique x M2_nb delta_nb 1.4 = Inr (tan_delta_nb - deflection_rhs x M2_nb 1.4)"
proof -
  note f = quarter_pi_facts [OF assms]
  have d: "0 < defl_den x M2_nb 1.4"
    using assms(1) order_refl assms(2) by (rule defl_den_mono(2)) simp
  have "deflection_term x M2_nb 1.4 = Inr (deflection_rhs x M2_nb 1.4)"
    using f d by (intro deflection_term_value) simp_all
  then show ?thesis
    by (simp add: oblique_def np_tan_def and_then_def delta_nb_def tan_arctan)
qed

lemma sin_cos_x1:
  "665460065 / 10 ^ 9 \<le> sin (72811 / 10 ^ 5 :: real)" "sin (72811 / 10 ^ 5 :: real) \<le> 665460066 / 10 ^ 9"
  "746433454 / 10 ^ 9 \<le> cos (72811 / 10 ^ 5 :: real)" "cos (72811 / 10 ^ 5 :: real) \<le> 746433455 / 10 ^ 9"
proof -
  show "665460065 / 10 ^ 9 \<le> sin (72811 / 10 ^ 5 :: real)"
    by (rule sin_lower_at [of "72811 / 10 ^ 5"]) (simp_all add: sin_poly_def power_divide)
  show "sin (72811 / 10 ^ 5 :: real) \<le> 665460066 / 10 ^ 9"
    by (rule sin_upper_at [of _ "72811 / 10 ^ 5"]) (simp_all add: sin_poly_def power_divide)
  show "746433454 / 10 ^ 9 \<le> cos (72811 / 10 ^ 5 :: real)"
    by (rule cos_lower_at [of _ "72811 / 10 ^ 5"]) (simp_all add: cos_poly_def power_divide)
  show "cos (72811 / 10 ^ 5 :: real) \<le> 746433455 / 10 ^ 9"
    by (rule cos_upper_at [of "72811 / 10 ^ 5"]) (simp_all add: cos_poly_def power_divide)
qed

lemma sin_cos_x2:
  "665542168 / 10 ^ 9 \<le> sin (72822 / 10 ^ 5 :: real)" "sin (72822 / 10 ^ 5 :: real) \<le> 665542169 / 10 ^ 9"
  "746360249 / 10 ^ 9 \<le> cos (72822 / 10 ^ 5 :: real)" "cos (72822 / 10 ^ 5 :: real) \<le> 746360250 / 10 ^ 9"
proof -
  show "665542168 / 10 ^ 9 \<le> sin (72822 / 10 ^ 5 :: real)"
    by (rule sin_lower_at [of "72822 / 10 ^ 5"]) (simp_all add: sin_poly_def power_divide)
  show "sin (72822 / 10 ^ 5 :: real) \<le> 665542169 / 10 ^ 9"
    by (rule sin_upper_at [of _ "72822 / 10 ^ 5"]) (simp_all add: sin_poly_def power_divide)
  show "746360249 / 10 ^ 9 \<le> cos (72822 / 10 ^ 5 :: real)"
    by (rule cos_lower_at [of _ "72822 / 10 ^ 5"]) (simp_all add: cos_poly_def power_divide)
  show "cos (72822 / 10 ^ 5 :: real) \<le> 746360250 / 10 ^ 9"
    by (rule cos_upper_at [of "72822 / 10 ^ 5"]) (simp_all add: cos_poly_def power_divide)
qed

lemma deflection_at_x1: "deflection_rhs (72811 / 10 ^ 5) M2_nb 1.4 \<le> 162142854 / 10 ^ 9"
proof -
  have n: "(1::real) \<le> (185284489 / 10 ^ 8) ^ 2 * (665460065 / 10 ^ 9) ^ 2" by (simp add: power2_eq_square)
  have d: "(0::real) \<le> 1.4 + (1 - 2 * (665460066 / 10 ^ 9) ^ 2)" by (simp add: power2_eq_square)
  have hi: "2 * ((746433455 / 10 ^ 9) / (665460065 / 10 ^ 9))
      * ((185286085 / 10 ^ 8) ^ 2 * (665460066 / 10 ^ 9) ^ 2 - 1)
      / ((185284489 / 10 ^ 8) ^ 2 * (1.4 + (1 - 2 * (665460066 / 10 ^ 9) ^ 2)) + (2::real))
      \<le> 162142854 / 10 ^ 9"
    by (simp add: power2_eq_square)
  show ?thesis
    unfolding deflection_rhs_alg
    by (rule order_trans [OF _ hi])
       (rule deflection_alg_bounds(2); (rule sin_cos_x1 M2_bounds n d | simp))
qed

lemma deflection_at_x2: "162230565 / 10 ^ 9 \<le> deflection_rhs (72822 / 10 ^ 5) M2_nb 1.4"
proof -
  have n: "(1::real) \<le> (185284489 / 10 ^ 8) ^ 2 * (665542168 / 10 ^ 9) ^ 2" by (simp add: power2_eq_square)
  have d: "(0::real) \<le> 1.4 + (1 - 2 * (665542169 / 10 ^ 9) ^ 2)" by (simp add: power2_eq_square)
  have lo: "162230565 / 10 ^ 9 \<le> 2 * ((746360249 / 10 ^ 9) / (665542169 / 10 ^ 9))
      * ((185284489 / 10 ^ 8) ^ 2 * (665542168 / 10 ^ 9) ^ 2 - 1)
      / ((185286085 / 10 ^ 8) ^ 2 * (1.4 + (1 - 2 * (665542168 / 10 ^ 9) ^ 2)) + (2::real))"
    by (simp add: power2_eq_square)
  show ?thesis
    unfolding deflection_rhs_alg
    by (rule order_trans [OF lo])
       (rule deflection_alg_bounds(1); (rule sin_cos_x2 M2_bounds n d | simp))
qed

lemma x2_le_quarter_pi: "72822 / 10 ^ 5 \<le> pi / 4"
  using pi_lower by simp

lemma defl_num_x2_nonneg: "0 \<le> defl_num (72822 / 10 ^ 5) M2_nb"
proof -
  have "(185284489 / 10 ^ 8) ^ 2 \<le> M2_nb ^ 2"
    using M2_bounds(1) by (intro power_mono) simp_all
  moreover have "(665542168 / 10 ^ 9) ^ 2 \<le> (sin (72822 / 10 ^ 5 :: real)) ^ 2"
    using sin_cos_x2(1) by (intro power_mono) simp_all
  ultimately have "(185284489 / 10 ^ 8) ^ 2 * (665542168 / 10 ^ 9) ^ 2
      \<le> M2_nb ^ 2 * (sin (72822 / 10 ^ 5 :: real)) ^ 2"
    by (intro mult_mono) simp_all
  moreover have "(1::real) \<le> (185284489 / 10 ^ 8) ^ 2 * (665542168 / 10 ^ 9) ^ 2"
    by (simp add: power2_eq_square)
  ultimately have a: "0 \<le> M2_nb ^ 2 * (sin (72822 / 10 ^ 5 :: real)) ^ 2 - 1" by linarith
  have "0 < sin (72822 / 10 ^ 5 :: real)" "0 < cos (72822 / 10 ^ 5 :: real)"
    using sin_cos_x2(1,3) by simp_all
  then have b: "0 \<le> 2 * (1 / tan (72822 / 10 ^ 5 :: real))" by (simp add: tan_def)
  show ?thesis unfolding defl_num_def using b a by (rule mult_nonneg_nonneg)
qed

lemma oblique_zero_location:
  assumes "np_radians 0.0001 \<le> x" and "x \<le> np_radians 45.0"
    and "oblique x M2_nb delta_nb 1.4 = Inr 0"
  shows "72811 / 10 ^ 5 < x" and "x < 72822 / 10 ^ 5"
proof -
  have x0: "0 < x" using assms(1) bracket_ends(1) by linarith
  have x4: "x \<le> pi / 4" using assms(2) bracket_ends(2) by simp
  have eq: "deflection_rhs x M2_nb 1.4 = tan_delta_nb"
    using assms(3) oblique_value [OF x0 x4] by simp
  show "72811 / 10 ^ 5 < x"
  proof (rule ccontr)
    assume "\<not> 72811 / 10 ^ 5 < x"
    then have le: "x \<le> 72811 / 10 ^ 5" by simp
    have q: "72811 / 10 ^ 5 \<le> pi / 4" using pi_lower by simp
    have "deflection_rhs x M2_nb 1.4 < tan_delta_nb"
    proof (cases "0 \<le> defl_num x M2_nb")
      case True
      have "deflection_rhs x M2_nb 1.4 \<le> deflection_rhs (72811 / 10 ^ 5) M2_nb 1.4"
        using x0 le q _ True by (rule deflection_rhs_mono) simp
      then show ?thesis using deflection_at_x1 tan_delta_bounds(1) by simp
    next
      case False
      then have "deflection_rhs x M2_nb 1.4 \<le> 0"
        using x0 x4 by (intro deflection_rhs_nonpos) simp_all
      then show ?thesis using tan_delta_bounds(1) by simp
    qed
    with eq show False by simp
  qed
  show "x < 72822 / 10 ^ 5"
  proof (rule ccontr)
    assume "\<not> x < 72822 / 10 ^ 5"
    then have ge: "72822 / 10 ^ 5 \<le> x" by simp
    have "deflection_rhs (72822 / 10 ^ 5) M2_nb 1.4 \<le> deflection_rhs x M2_nb 1.4"
      using _ ge x4 _ defl_num_x2_nonneg by (rule deflection_rhs_mono) simp_all
    then have "tan_delta_nb < deflection_rhs x M2_nb 1.4"
      using deflection_at_x2 tan_delta_bounds(2) by simp
    with eq show False by simp
  qed
qed

lemma oblique_zero_exists:
  "\<exists>x. 72811 / 10 ^ 5 \<le> x \<and> x \<le> 72822 / 10 ^ 5 \<and> oblique x M2_nb delta_nb 1.4 = Inr 0"
proof -
  let ?f = "\<lambda>x. deflection_alg (sin x) (cos x) M2_nb 1.4"
  have f: "?f x = deflection_rhs x M2_nb 1.4" for x by (simp add: deflection_rhs_alg)
  have "\<exists>x. 72811 / 10 ^ 5 \<le> x \<and> x \<le> 72822 / 10 ^ 5 \<and> ?f x = tan_delta_nb"
  proof (rule IVT')
    show "?f (72811 / 10 ^ 5) \<le> tan_delta_nb"
      unfolding f using deflection_at_x1 tan_delta_bounds(1) by simp
    show "tan_delta_nb \<le> ?f (72822 / 10 ^ 5)"
      unfolding f using deflection_at_x2 tan_delta_bounds(2) by simp
    show "(72811 / 10 ^ 5 :: real) \<le> 72822 / 10 ^ 5" by simp
    have nz: "sin x \<noteq> 0 \<and> M2_nb\<^sup>2 * (1.4 + (1 - 2 * (sin x)\<^sup>2)) + 2 \<noteq> 0"
      if "x \<in> {72811 / 10 ^ 5 .. 72822 / 10 ^ 5}" for x :: real
    proof -
      have "72811 / 10 ^ 5 \<le> x" "x \<le> 72822 / 10 ^ 5" using that by simp_all
      then have x0: "0 < x" and x4: "x \<le> pi / 4"
        using x2_le_quarter_pi by (auto intro: less_le_trans [rotated] order_trans)
      have "0 < defl_den x M2_nb 1.4"
        using x0 order_refl x4 by (rule defl_den_mono(2)) simp
      then show ?thesis
        using quarter_pi_facts(1) [OF x0 x4] by (simp add: defl_den_def cos_double_sin)
    qed
    show "continuous_on {72811 / 10 ^ 5 .. 72822 / 10 ^ 5} ?f"
      unfolding deflection_alg_def
      by (intro continuous_intros) (use nz in auto)
  qed
  then obtain x :: real where x: "72811 / 10 ^ 5 \<le> x" "x \<le> 72822 / 10 ^ 5"
    "deflection_rhs x M2_nb 1.4 = tan_delta_nb"
    unfolding f by blast
  have x0: "0 < x" using x(1) by (rule less_le_trans [rotated]) simp
  have x4: "x \<le> pi / 4" using x(2) x2_le_quarter_pi by linarith
  have "oblique x M2_nb delta_nb 1.4 = Inr 0"
    using oblique_value [OF x0 x4] x(3) by simp
  with x(1,2) show ?thesis by blast
qed

subsection \<open>The notebook in closed form\<close>

lemma np_degrees_bounds:
  assumes "0 \<le> L" and "L * 3.1415927 \<le> 180 * r" and "180 * r \<le> U * 3.1415926" and "0 \<le> U"
  shows "L \<le> np_degrees r" and "np_degrees r \<le> U"
proof -
  have "L * pi \<le> L * 3.1415927"
    using assms(1) pi_upper by (intro mult_left_mono) simp_all
  then have "L * pi \<le> 180 * r" using assms(2) by linarith
  then have "L \<le> 180 * r / pi" by (simp add: pos_le_divide_eq)
  then show "L \<le> np_degrees r" by (simp add: np_degrees_def mult.commute)
  have "U * 3.1415926 \<le> U * pi"
    using assms(4) pi_lower by (intro mult_left_mono) simp_all
  then have "180 * r \<le> U * pi" using assms(3) by linarith
  then have "180 * r / pi \<le> U" by (simp add: pos_divide_le_eq)
  then show "np_degrees r \<le> U" by (simp add: np_degrees_def mult.commute)
qed

lemma q_denominator_pos: "0 < M1n_nb ^ 2 * (2 * 1.4) / (1.4 - 1) - 1"
proof -
  have "(12618681394 / 10 ^ 10) ^ 2 \<le> M1n_nb ^ 2"
    using M1n_bounds(1) by (intro power_mono) simp_all
  then have "1 \<le> M1n_nb ^ 2" by (rule order_trans [rotated]) (simp add: power2_eq_square)
  then show ?thesis by simp
qed

lemma oblique_shock_unfold:
  "oblique_shock solve =
     and_then (solve (\<lambda>th. oblique th M2_nb delta_nb 1.4) (np_radians 0.0001) (np_radians 45.0))
       (\<lambda>res. Inr \<lparr>delta = delta_nb, M1n = M1n_nb, M2n = M2n_nb, M2 = M2_nb,
                    theta_2 = root res, beta = root res - delta_nb, M3n = M2_nb * sin (root res)\<rparr>)"
proof -
  have s: "0 < sin theta_nb" and c: "0 < cos theta_nb"
    using sin_theta_bounds(1) cos_theta_bounds(1) by (auto intro: less_le_trans [rotated])
  have "(0::real) \<le> 1 - 2 * (573576445 / 10 ^ 9) ^ 2" by (simp add: power2_eq_square)
  moreover have "(sin theta_nb) ^ 2 \<le> (573576445 / 10 ^ 9) ^ 2"
    using sin_theta_bounds(2) s by (intro power_mono) simp_all
  ultimately have "0 \<le> cos (2 * theta_nb)" unfolding cos_double_sin by linarith
  then have "0 \<le> 2.2 ^ 2 * (1.4 + cos (2 * theta_nb))" by (intro mult_nonneg_nonneg) simp_all
  then have d: "defl_den theta_nb 2.2 1.4 \<noteq> 0" by (simp add: defl_den_def)
  have dt: "deflection_term theta_nb 2.2 1.4 = Inr tan_delta_nb"
    unfolding tan_delta_nb_def using c s d by (intro deflection_term_value) simp_all
  have qd: "np_div (M1n_nb ^ 2 + 2 / (1.4 - 1)) (M1n_nb ^ 2 * (2 * 1.4) / (1.4 - 1) - 1)
      = Inr ((M1n_nb ^ 2 + 2 / (1.4 - 1)) / (M1n_nb ^ 2 * (2 * 1.4) / (1.4 - 1) - 1))"
    using q_denominator_pos by (simp add: np_div_def)
  have "0 \<le> (M1n_nb ^ 2 + 2 / (1.4 - 1)) / (M1n_nb ^ 2 * (2 * 1.4) / (1.4 - 1) - 1)"
    using q_denominator_pos by (intro divide_nonneg_pos add_nonneg_nonneg) simp_all
  then have sq: "np_sqrt ((M1n_nb ^ 2 + 2 / (1.4 - 1)) / (M1n_nb ^ 2 * (2 * 1.4) / (1.4 - 1) - 1)) = Inr M2n_nb"
    unfolding np_sqrt_def M2n_nb_def by (simp only: not_less [symmetric] if_False)
  have "0 < sin (theta_nb - delta_nb)"
    using sin_diff_bounds(1) by (rule less_le_trans [rotated]) simp
  then have m2: "np_div M2n_nb (sin (theta_nb - delta_nb)) = Inr M2_nb"
    by (simp add: np_div_def M2_nb_def)
  show ?thesis
    by (simp only: oblique_shock_def Let_def theta_nb_def [symmetric] dt and_then_Inr
        delta_nb_def [symmetric] M1n_nb_def [symmetric] qd sq m2)
qed

subsection \<open>The bisection model on the residual of the second shock\<close>

lemma oblique_bisection:
  "\<exists>res. root_scalar 100 (2 / 10 ^ 12) (\<lambda>th. oblique th M2_nb delta_nb 1.4)
            (np_radians 0.0001) (np_radians 45.0) = Inr res
         \<and> converged res
         \<and> accurate_root (\<lambda>th. oblique th M2_nb delta_nb 1.4)
              (np_radians 0.0001) (np_radians 45.0) (2 / 10 ^ 12) (root res)"
proof -
  let ?a = "np_radians 0.0001" and ?b = "np_radians 45.0"
  let ?h = "\<lambda>x. deflection_alg (sin x) (cos x) M2_nb 1.4"
  let ?g = "\<lambda>x. tan_delta_nb - ?h x"
  have h: "?h x = deflection_rhs x M2_nb 1.4" for x by (simp add: deflection_rhs_alg)
  have a0: "0 < ?a" by (rule bracket_ends(1))
  have b4: "?b = pi / 4" by (rule bracket_ends(2))
  have ab: "?a < ?b" using pi_gt_zero by (simp add: np_radians_def)
  have a_small: "?a \<le> 1 / 10 ^ 5" using pi_upper by (simp add: np_radians_def)
  have tpos: "0 < tan_delta_nb" using tan_delta_bounds(1) by (rule less_le_trans [rotated]) simp
  have "\<exists>res. root_scalar (Suc 99) (2 / 10 ^ 12) (\<lambda>th. oblique th M2_nb delta_nb 1.4) ?a ?b = Inr res
         \<and> converged res
         \<and> accurate_root (\<lambda>th. oblique th M2_nb delta_nb 1.4) ?a ?b (2 / 10 ^ 12) (root res)"
  proof (rule root_scalar_accurate [where g = ?g])
    show "?a < ?b" by (rule ab)
    show "oblique x M2_nb delta_nb 1.4 = Inr (?g x)" if "?a \<le> x" "x \<le> ?b" for x
      unfolding h using that a0 b4 by (intro oblique_value) linarith+
    have nz: "sin x \<noteq> 0 \<and> M2_nb\<^sup>2 * (1.4 + (1 - 2 * (sin x)\<^sup>2)) + 2 \<noteq> 0"
      if "x \<in> {?a..?b}" for x :: real
    proof -
      have x0: "0 < x" and x4: "x \<le> pi / 4" using that a0 b4 by auto
      have "0 < defl_den x M2_nb 1.4"
        using x0 order_refl x4 by (rule defl_den_mono(2)) simp
      then show ?thesis
        using quarter_pi_facts(1) [OF x0 x4] by (simp add: defl_den_def cos_double_sin)
    qed
    show "continuous_on {?a..?b} ?g"
      unfolding deflection_alg_def
      by (intro continuous_intros) (use nz in auto)
    have ga: "0 < ?g ?a"
    proof -
      have a4: "?a \<le> pi / 4" using ab b4 by simp
      have "sin ?a \<le> ?a" using a0 by (intro sin_x_le_x) simp
      then have s1: "sin ?a \<le> 1 / 10 ^ 5" using a_small by linarith
      have s0: "0 < sin ?a" "0 < cos ?a" using quarter_pi_facts [OF a0 a4] by simp_all
      have "(sin ?a) ^ 2 \<le> (1 / 10 ^ 5) ^ 2" using s1 s0 by (intro power_mono) simp_all
      moreover have "M2_nb ^ 2 \<le> 2 ^ 2"
        using M2_bounds by (intro power_mono) (auto intro: order_trans [rotated] order_trans)
      ultimately have "M2_nb ^ 2 * (sin ?a) ^ 2 \<le> 2 ^ 2 * (1 / 10 ^ 5) ^ 2"
        by (intro mult_mono) simp_all
      then have np: "M2_nb ^ 2 * (sin ?a) ^ 2 - 1 \<le> 0" by (rule order_trans [OF diff_right_mono]) (simp add: power2_eq_square)
      have nn: "0 \<le> 2 * (1 / tan ?a)" using s0 by (simp add: tan_def)
      have "defl_num ?a M2_nb \<le> 0"
        unfolding defl_num_def using nn np by (rule mult_nonneg_nonpos)
      then have "deflection_rhs ?a M2_nb 1.4 \<le> 0"
        using a0 a4 by (intro deflection_rhs_nonpos) simp_all
      then show ?thesis unfolding h using tpos by linarith
    qed
    have gb: "?g ?b < 0"
    proof -
      have "deflection_rhs (72822 / 10 ^ 5) M2_nb 1.4 \<le> deflection_rhs ?b M2_nb 1.4"
        unfolding b4 using _ x2_le_quarter_pi order_refl _ defl_num_x2_nonneg
        by (rule deflection_rhs_mono) simp_all
      then have "tan_delta_nb < deflection_rhs ?b M2_nb 1.4"
        using deflection_at_x2 tan_delta_bounds(2) by simp
      then show ?thesis unfolding h by simp
    qed
    show "?g ?a * ?g ?b < 0" using ga gb by (rule mult_pos_neg)
    have "?b - ?a \<le> 1" using a0 pi_less_4 unfolding b4 by linarith
    then show "?b - ?a \<le> 2 ^ Suc 99 * (2 / 10 ^ 12)" by (rule order_trans) simp
  qed
  then show ?thesis by simp
qed

section \<open>The oblique-shock notebook: structure and values\<close>

text \<open>
  What the residual \<open>oblique\<close> computes: the tangent of \<open>delta\<close> minus the right-hand side
  of the deflection relation at \<open>theta\<close>, wherever none of its divisions is by zero, and so
  on the whole bracket of the root solve.
\<close>

lemma oblique_general:
  assumes "cos d \<noteq> 0" and "cos th \<noteq> 0" and "sin th \<noteq> 0" and "m ^ 2 * (g + cos (2 * th)) + 2 \<noteq> 0"
  shows "oblique th m d g = Inr (tan d - 2 * (1 / tan th) * (m ^ 2 * (sin th) ^ 2 - 1)
                                          / (m ^ 2 * (g + cos (2 * th)) + 2))"
proof -
  have "deflection_term th m g = Inr (deflection_rhs th m g)"
    using assms(2,3,4) by (intro deflection_term_value) (simp_all add: defl_den_def)
  then show ?thesis
    using assms(1) by (simp add: oblique_def np_tan_def and_then_def deflection_rhs_def)
qed

lemma oblique_on_bracket:
  assumes "np_radians 0.0001 \<le> th" and "th \<le> np_radians 45.0"
  shows "oblique th M2_nb delta_nb 1.4 = Inr (tan delta_nb - 2 * (1 / tan th) * (M2_nb ^ 2 * (sin th) ^ 2 - 1)
                                          / (M2_nb ^ 2 * (1.4 + cos (2 * th)) + 2))"
proof -
  have "0 < th" using assms(1) bracket_ends(1) by linarith
  moreover have "th \<le> pi / 4" using assms(2) bracket_ends(2) by simp
  ultimately have "oblique th M2_nb delta_nb 1.4 = Inr (tan_delta_nb - deflection_rhs th M2_nb 1.4)"
    by (rule oblique_value)
  then show ?thesis
    by (simp only: deflection_rhs_def delta_nb_def tan_arctan)
qed

text \<open>
  C8.  Whatever the solver is, the notebook calls it exactly once, on the residual
  \<open>oblique\<close> with \<open>args=(M2, delta, gamma)\<close> and the bracket
  \<open>[radians 0.0001, radians 45]\<close>, to obtain \<open>theta_2\<close>.  The residual is the deflection
  relation: \<open>oblique(theta, M, delta, gamma)\<close> is \<open>tan(delta)\<close> minus
  \<open>2 cot(theta) (M^2 sin^2(theta) - 1) / (M^2 (gamma + cos(2 theta)) + 2)\<close> wherever that
  expression is defined, and in particular at every angle of the bracket for the
  notebook's \<open>M2\<close> and \<open>delta\<close>.  Every other quantity is a closed form: \<open>delta\<close> is the arctangent of the deflection expression,
  \<open>M1n = M1 sin(theta)\<close>, \<open>M2n\<close> is the non-negative root of
  \<open>M2n^2 = (M1n^2 + 2/(gamma-1)) / ((2 gamma/(gamma-1)) M1n^2 - 1)\<close> (with \<open>gamma\<close>, not
  with \<open>delta\<close>, in \<open>2/(gamma-1)\<close>), \<open>M2 = M2n / sin(theta - delta)\<close>,
  \<open>beta = theta_2 - delta\<close> and \<open>M3n = M2 sin(theta_2)\<close>.
\<close>

theorem oblique_shock_closed_form:
  "oblique_shock solve =
     and_then (solve (\<lambda>th. oblique th M2_nb delta_nb 1.4) (np_radians 0.0001) (np_radians 45.0))
       (\<lambda>res. Inr \<lparr>delta = delta_nb, M1n = M1n_nb, M2n = M2n_nb, M2 = M2_nb,
                    theta_2 = root res, beta = root res - delta_nb, M3n = M2_nb * sin (root res)\<rparr>)
   \<and> (\<forall>th m d g. cos d \<noteq> 0 \<and> cos th \<noteq> 0 \<and> sin th \<noteq> 0 \<and> m ^ 2 * (g + cos (2 * th)) + 2 \<noteq> 0 \<longrightarrow>
         oblique th m d g = Inr (tan d - 2 * (1 / tan th) * (m ^ 2 * (sin th) ^ 2 - 1)
                                          / (m ^ 2 * (g + cos (2 * th)) + 2)))
   \<and> (\<forall>th. np_radians 0.0001 \<le> th \<and> th \<le> np_radians 45.0 \<longrightarrow>
         oblique th M2_nb delta_nb 1.4
           = Inr (tan delta_nb - 2 * (1 / tan th) * (M2_nb ^ 2 * (sin th) ^ 2 - 1)
                                   / (M2_nb ^ 2 * (1.4 + cos (2 * th)) + 2)))
   \<and> delta_nb = arctan (2 * (1 / tan (np_radians 35.0)) * (2.2 ^ 2 * (sin (np_radians 35.0)) ^ 2 - 1)
                          / (2.2 ^ 2 * (1.4 + cos (2 * np_radians 35.0)) + 2))
   \<and> M1n_nb = 2.2 * sin (np_radians 35.0)
   \<and> 0 \<le> M2n_nb
   \<and> M2n_nb ^ 2 = (M1n_nb ^ 2 + 2 / (1.4 - 1)) / ((2 * 1.4 / (1.4 - 1)) * M1n_nb ^ 2 - 1)
   \<and> M2n_nb ^ 2 \<noteq> (M1n_nb ^ 2 + 2 / (delta_nb - 1)) / ((2 * 1.4 / (1.4 - 1)) * M1n_nb ^ 2 - 1)
   \<and> M2_nb = M2n_nb / sin (np_radians 35.0 - delta_nb)"
proof -
  let ?q = "(M1n_nb ^ 2 + 2 / (1.4 - 1)) / (M1n_nb ^ 2 * (2 * 1.4) / (1.4 - 1) - 1)"
  have dpos: "0 < M1n_nb ^ 2 * (2 * 1.4) / (1.4 - 1) - 1" by (rule q_denominator_pos)
  have q0: "0 \<le> ?q"
    using dpos by (intro divide_nonneg_pos add_nonneg_nonneg) simp_all
  have m2n0: "0 \<le> M2n_nb" unfolding M2n_nb_def using q0 by (rule real_sqrt_ge_zero)
  have sq: "M2n_nb ^ 2 = ?q" unfolding M2n_nb_def using q0 by (rule real_sqrt_pow2)
  have same: "(2 * 1.4 / (1.4 - 1)) * M1n_nb ^ 2 - 1 = M1n_nb ^ 2 * (2 * 1.4) / (1.4 - 1) - 1"
    by simp
  have d0: "0 \<le> delta_nb" "delta_nb < 1"
    using delta_bounds by (auto intro: order_trans [rotated] le_less_trans)
  have "2 / (delta_nb - 1) \<le> - 2"
    using d0 by (simp add: divide_le_eq)
  moreover have "M1n_nb ^ 2 \<le> (1261868179 / 10 ^ 9) ^ 2"
    using M1n_bounds by (intro power_mono) (auto intro: order_trans [rotated])
  then have "M1n_nb ^ 2 < 2" by (rule le_less_trans) (simp add: power2_eq_square)
  ultimately have "M1n_nb ^ 2 + 2 / (delta_nb - 1) < 0" by linarith
  then have "(M1n_nb ^ 2 + 2 / (delta_nb - 1)) / (M1n_nb ^ 2 * (2 * 1.4) / (1.4 - 1) - 1) < 0"
    using dpos by (rule divide_neg_pos)
  then have ne: "M2n_nb ^ 2 \<noteq> (M1n_nb ^ 2 + 2 / (delta_nb - 1)) / (M1n_nb ^ 2 * (2 * 1.4) / (1.4 - 1) - 1)"
    using zero_le_power2 [of M2n_nb] by linarith
  have dl: "delta_nb = arctan (2 * (1 / tan (np_radians 35.0)) * (2.2 ^ 2 * (sin (np_radians 35.0)) ^ 2 - 1)
                          / (2.2 ^ 2 * (1.4 + cos (2 * np_radians 35.0)) + 2))"
    by (simp only: delta_nb_def tan_delta_nb_def deflection_rhs_def theta_nb_def)
  have m1: "M1n_nb = 2.2 * sin (np_radians 35.0)"
    by (simp only: M1n_nb_def theta_nb_def)
  have m2: "M2_nb = M2n_nb / sin (np_radians 35.0 - delta_nb)"
    by (simp only: M2_nb_def theta_nb_def)
  have og: "\<forall>th m d g. cos d \<noteq> 0 \<and> cos th \<noteq> 0 \<and> sin th \<noteq> 0 \<and> m ^ 2 * (g + cos (2 * th)) + 2 \<noteq> 0 \<longrightarrow>
         oblique th m d g = Inr (tan d - 2 * (1 / tan th) * (m ^ 2 * (sin th) ^ 2 - 1)
                                          / (m ^ 2 * (g + cos (2 * th)) + 2))"
    using oblique_general by blast
  have ob: "\<forall>th. np_radians 0.0001 \<le> th \<and> th \<le> np_radians 45.0 \<longrightarrow>
         oblique th M2_nb delta_nb 1.4
           = Inr (tan delta_nb - 2 * (1 / tan th) * (M2_nb ^ 2 * (sin th) ^ 2 - 1)
                                   / (M2_nb ^ 2 * (1.4 + cos (2 * th)) + 2))"
    using oblique_on_bracket by blast
  show ?thesis
    unfolding same using oblique_shock_unfold [of solve] og ob dl m1 m2n0 sq ne m2 by blast
qed

theorem oblique_shock_closed_form_witness:
  "oblique (pi / 4) 2 0 1.4 = Inr (- (5 / 19))
   \<and> oblique (np_radians 45.0) M2_nb delta_nb 1.4
       = Inr (tan delta_nb - 2 * (1 / tan (np_radians 45.0)) * (M2_nb ^ 2 * (sin (np_radians 45.0)) ^ 2 - 1)
                               / (M2_nb ^ 2 * (1.4 + cos (2 * np_radians 45.0)) + 2))
   \<and> (\<exists>res :: root_results. oblique_shock (root_scalar 100 (2 / 10 ^ 12))
               = Inr \<lparr>delta = delta_nb, M1n = M1n_nb, M2n = M2n_nb, M2 = M2_nb,
                      theta_2 = root res, beta = root res - delta_nb, M3n = M2_nb * sin (root res)\<rparr>
             \<and> converged res)"
proof -
  note T = oblique_shock_closed_form [where solve = "root_scalar 100 (2 / 10 ^ 12)"]
  from T have g: "cos d \<noteq> 0 \<and> cos th \<noteq> 0 \<and> sin th \<noteq> 0 \<and> m ^ 2 * (g + cos (2 * th)) + 2 \<noteq> 0 \<longrightarrow>
         oblique th m d g = Inr (tan d - 2 * (1 / tan th) * (m ^ 2 * (sin th) ^ 2 - 1)
                                          / (m ^ 2 * (g + cos (2 * th)) + 2))" for th m d g :: real
    by blast
  from T have b: "np_radians 0.0001 \<le> th \<and> th \<le> np_radians 45.0 \<longrightarrow>
         oblique th M2_nb delta_nb 1.4
           = Inr (tan delta_nb - 2 * (1 / tan th) * (M2_nb ^ 2 * (sin th) ^ 2 - 1)
                                   / (M2_nb ^ 2 * (1.4 + cos (2 * th)) + 2))" for th
    by blast
  from T have u: "oblique_shock (root_scalar 100 (2 / 10 ^ 12)) =
     and_then (root_scalar 100 (2 / 10 ^ 12) (\<lambda>th. oblique th M2_nb delta_nb 1.4) (np_radians 0.0001) (np_radians 45.0))
       (\<lambda>res. Inr \<lparr>delta = delta_nb, M1n = M1n_nb, M2n = M2n_nb, M2 = M2_nb,
                    theta_2 = root res, beta = root res - delta_nb, M3n = M2_nb * sin (root res)\<rparr>)"
    by blast
  have s2: "(sin (pi / 4)) ^ 2 = (1 / 2 :: real)"
    by (simp add: sin_45 power_divide)
  have c2: "cos (2 * (pi / 4)) = (0::real)" by simp
  have "oblique (pi / 4) 2 0 1.4 = Inr (tan 0 - 2 * (1 / tan (pi / 4)) * (2 ^ 2 * (sin (pi / 4)) ^ 2 - 1)
                                          / (2 ^ 2 * (1.4 + cos (2 * (pi / 4))) + 2))"
    using g [of 0 "pi / 4" 2 "1.4"] unfolding c2 by (simp add: sin_45 cos_45)
  then have first: "oblique (pi / 4) 2 0 1.4 = Inr (- (5 / 19))"
    unfolding c2 s2 tan_45 by simp
  have "np_radians 0.0001 \<le> np_radians 45.0" by (simp add: np_radians_def)
  with b [of "np_radians 45.0"] have second: "oblique (np_radians 45.0) M2_nb delta_nb 1.4
       = Inr (tan delta_nb - 2 * (1 / tan (np_radians 45.0)) * (M2_nb ^ 2 * (sin (np_radians 45.0)) ^ 2 - 1)
                               / (M2_nb ^ 2 * (1.4 + cos (2 * np_radians 45.0)) + 2))"
    by simp
  obtain res where res:
    "root_scalar 100 (2 / 10 ^ 12) (\<lambda>th. oblique th M2_nb delta_nb 1.4)
            (np_radians 0.0001) (np_radians 45.0) = Inr res" "converged res"
    using oblique_bisection by blast
  have run: "oblique_shock (root_scalar 100 (2 / 10 ^ 12))
               = Inr \<lparr>delta = delta_nb, M1n = M1n_nb, M2n = M2n_nb, M2 = M2_nb,
                      theta_2 = root res, beta = root res - delta_nb, M3n = M2_nb * sin (root res)\<rparr>"
    unfolding u res(1) and_then_Inr ..
  have third: "\<exists>res :: root_results. oblique_shock (root_scalar 100 (2 / 10 ^ 12))
               = Inr \<lparr>delta = delta_nb, M1n = M1n_nb, M2n = M2n_nb, M2 = M2_nb,
                      theta_2 = root res, beta = root res - delta_nb, M3n = M2_nb * sin (root res)\<rparr>
             \<and> converged res"
  proof (intro exI conjI)
    show "oblique_shock (root_scalar 100 (2 / 10 ^ 12))
               = Inr \<lparr>delta = delta_nb, M1n = M1n_nb, M2n = M2n_nb, M2 = M2_nb,
                      theta_2 = root res, beta = root res - delta_nb, M3n = M2_nb * sin (root res)\<rparr>"
      by (rule run)
    show "converged res" by (rule res(2))
  qed
  from first second third show ?thesis by (intro conjI)
qed

lemma second_shock_root_bounds:
  assumes acc: "accurate_root (\<lambda>th. oblique th M2_nb delta_nb 1.4)
                  (np_radians 0.0001) (np_radians 45.0) tol r"
    and tol: "tol \<le> 1 / 10 ^ 4"
  shows "72801 / 10 ^ 5 \<le> r" and "r \<le> 72832 / 10 ^ 5"
proof -
  from acc obtain x where x: "np_radians 0.0001 \<le> x" "x \<le> np_radians 45.0"
    "oblique x M2_nb delta_nb 1.4 = Inr 0" "\<bar>r - x\<bar> \<le> tol"
    unfolding accurate_root_def by blast
  note loc = oblique_zero_location [OF x(1,2,3)]
  have "\<bar>r - x\<bar> \<le> 1 / 10 ^ 4" using x(4) tol by linarith
  then have a: "x - 1 / 10 ^ 4 \<le> r" "r \<le> x + 1 / 10 ^ 4" by linarith+
  have "(72801 / 10 ^ 5 :: real) = 72811 / 10 ^ 5 - 1 / 10 ^ 4" by simp
  then show "72801 / 10 ^ 5 \<le> r" using a(1) loc(1) by linarith
  have "(72832 / 10 ^ 5 :: real) = 72822 / 10 ^ 5 + 1 / 10 ^ 4" by simp
  then show "r \<le> 72832 / 10 ^ 5" using a(2) loc(2) by linarith
qed

lemma abs_diff_less:
  fixes v :: real
  assumes "lo \<le> v" and "v \<le> hi" and "c - e < lo" and "hi < c + e"
  shows "\<bar>v - c\<bar> < e"
  using assms by linarith

text \<open>
  C5.  For the notebook's inputs \<open>M1 = 2.2\<close>, \<open>theta = 35\<close> degrees, \<open>gamma = 1.4\<close>, and
  a root solve that returns a point within \<open>tol \<le> 10^-4\<close> radians of a zero of the
  residual \<open>oblique\<close> in the bracket: the notebook runs to its end and, rounded as it
  prints them, the deflection angle is 9.21 degrees, \<open>M2\<close> is 1.85, \<open>theta_2\<close> is 41.7
  degrees, \<open>beta\<close> is 32.5 degrees, \<open>M1n\<close> is 1.262, the normal Mach number ahead of the
  second shock \<open>M2 * sin(theta_2)\<close> is 1.233, and the latter is smaller than \<open>M1n\<close>.
\<close>

theorem oblique_shock_values:
  assumes sol: "solve (\<lambda>th. oblique th M2_nb delta_nb 1.4) (np_radians 0.0001) (np_radians 45.0) = Inr res"
    and acc: "accurate_root (\<lambda>th. oblique th M2_nb delta_nb 1.4)
                (np_radians 0.0001) (np_radians 45.0) tol (root res)"
    and tol: "tol \<le> 1 / 10 ^ 4"
  shows "\<exists>s. oblique_shock solve = Inr s
          \<and> \<bar>np_degrees (delta s) - 9.21\<bar> < 0.005
          \<and> \<bar>M2 s - 1.85\<bar> < 0.005
          \<and> \<bar>np_degrees (theta_2 s) - 41.7\<bar> < 0.05
          \<and> \<bar>np_degrees (beta s) - 32.5\<bar> < 0.05
          \<and> \<bar>M1n s - 1.262\<bar> < 0.0005
          \<and> \<bar>M3n s - 1.233\<bar> < 0.0005
          \<and> M3n s < M1n s"
proof -
  define r where "r = root res"
  note rb = second_shock_root_bounds [OF acc tol, folded r_def]
  let ?s = "\<lparr>delta = delta_nb, M1n = M1n_nb, M2n = M2n_nb, M2 = M2_nb,
             theta_2 = r, beta = r - delta_nb, M3n = M2_nb * sin r\<rparr>"
  have run: "oblique_shock solve = Inr ?s"
    unfolding oblique_shock_unfold sol and_then_Inr r_def ..
  have d: "\<bar>np_degrees delta_nb - 9.21\<bar> < 0.005"
  proof (rule abs_diff_less)
    show "9.2121 \<le> np_degrees delta_nb"
    proof (rule np_degrees_bounds(1) [where U = 10])
      have "9.2121 * 3.1415927 \<le> 180 * (1607833 / 10 ^ 7 :: real)" by simp
      also have "\<dots> \<le> 180 * delta_nb" using delta_bounds(1) by simp
      finally show "9.2121 * 3.1415927 \<le> 180 * delta_nb" .
      have "180 * delta_nb \<le> 180 * (1607874 / 10 ^ 7)" using delta_bounds(2) by simp
      also have "\<dots> \<le> 10 * 3.1415926" by simp
      finally show "180 * delta_nb \<le> 10 * 3.1415926" .
    qed simp_all
    show "np_degrees delta_nb \<le> 9.2125"
    proof (rule np_degrees_bounds(2) [where L = 0])
      have "180 * delta_nb \<le> 180 * (1607874 / 10 ^ 7)" using delta_bounds(2) by simp
      also have "\<dots> \<le> 9.2125 * 3.1415926" by simp
      finally show "180 * delta_nb \<le> 9.2125 * 3.1415926" .
      have "(0::real) \<le> 180 * (1607833 / 10 ^ 7)" by simp
      also have "\<dots> \<le> 180 * delta_nb" using delta_bounds(1) by simp
      finally show "0 * 3.1415927 \<le> 180 * delta_nb" by simp
    qed simp_all
  qed simp_all
  have m2: "\<bar>M2_nb - 1.85\<bar> < 0.005"
    by (rule abs_diff_less [OF M2_bounds]) simp_all
  have t2: "\<bar>np_degrees r - 41.7\<bar> < 0.05"
  proof (rule abs_diff_less)
    show "41.71 \<le> np_degrees r"
    proof (rule np_degrees_bounds(1) [where U = 100])
      have "41.71 * 3.1415927 \<le> 180 * (72801 / 10 ^ 5 :: real)" by simp
      also have "\<dots> \<le> 180 * r" using rb(1) by simp
      finally show "41.71 * 3.1415927 \<le> 180 * r" .
      have "180 * r \<le> 180 * (72832 / 10 ^ 5)" using rb(2) by simp
      also have "\<dots> \<le> 100 * 3.1415926" by simp
      finally show "180 * r \<le> 100 * 3.1415926" .
    qed simp_all
    show "np_degrees r \<le> 41.73"
    proof (rule np_degrees_bounds(2) [where L = 0])
      have "180 * r \<le> 180 * (72832 / 10 ^ 5)" using rb(2) by simp
      also have "\<dots> \<le> 41.73 * 3.1415926" by simp
      finally show "180 * r \<le> 41.73 * 3.1415926" .
      have "(0::real) \<le> 180 * (72801 / 10 ^ 5)" by simp
      also have "\<dots> \<le> 180 * r" using rb(1) by simp
      finally show "0 * 3.1415927 \<le> 180 * r" by simp
    qed simp_all
  qed simp_all
  have bl: "5672226 / 10 ^ 7 \<le> r - delta_nb"
  proof -
    have "(5672226 / 10 ^ 7 :: real) = 72801 / 10 ^ 5 - 1607874 / 10 ^ 7" by simp
    then show ?thesis using rb(1) delta_bounds(2) by linarith
  qed
  have bu: "r - delta_nb \<le> 5675367 / 10 ^ 7"
  proof -
    have "(5675367 / 10 ^ 7 :: real) = 72832 / 10 ^ 5 - 1607833 / 10 ^ 7" by simp
    then show ?thesis using rb(2) delta_bounds(1) by linarith
  qed
  have b: "\<bar>np_degrees (r - delta_nb) - 32.5\<bar> < 0.05"
  proof (rule abs_diff_less)
    show "32.49 \<le> np_degrees (r - delta_nb)"
    proof (rule np_degrees_bounds(1) [where U = 100])
      have "32.49 * 3.1415927 \<le> 180 * (5672226 / 10 ^ 7 :: real)" by simp
      also have "\<dots> \<le> 180 * (r - delta_nb)" using bl by simp
      finally show "32.49 * 3.1415927 \<le> 180 * (r - delta_nb)" .
      have "180 * (r - delta_nb) \<le> 180 * (5675367 / 10 ^ 7)" using bu by simp
      also have "\<dots> \<le> 100 * 3.1415926" by simp
      finally show "180 * (r - delta_nb) \<le> 100 * 3.1415926" .
    qed simp_all
    show "np_degrees (r - delta_nb) \<le> 32.52"
    proof (rule np_degrees_bounds(2) [where L = 0])
      have "180 * (r - delta_nb) \<le> 180 * (5675367 / 10 ^ 7)" using bu by simp
      also have "\<dots> \<le> 32.52 * 3.1415926" by simp
      finally show "180 * (r - delta_nb) \<le> 32.52 * 3.1415926" .
      have "(0::real) \<le> 180 * (5672226 / 10 ^ 7)" by simp
      also have "\<dots> \<le> 180 * (r - delta_nb)" using bl by simp
      finally show "0 * 3.1415927 \<le> 180 * (r - delta_nb)" by simp
    qed simp_all
  qed simp_all
  have m1: "\<bar>M1n_nb - 1.262\<bar> < 0.0005"
    by (rule abs_diff_less [OF M1n_bounds]) simp_all
  have sl: "665385418 / 10 ^ 9 \<le> sin r"
  proof (rule sin_lower_at [OF _ rb(1)])
    show "r \<le> 1" using rb(2) by (rule order_trans) simp
    show "665385418 / 10 ^ 9 \<le> sin_poly (72801 / 10 ^ 5) - (72801 / 10 ^ 5) ^ 12 / 479001600"
      by (simp add: sin_poly_def power_divide)
  qed simp
  have su: "sin r \<le> 665616802 / 10 ^ 9"
  proof (rule sin_upper_at [OF _ rb(2)])
    show "0 \<le> r" using rb(1) by (rule order_trans [rotated]) simp
    show "sin_poly (72832 / 10 ^ 5) + (72832 / 10 ^ 5) ^ 12 / 479001600 \<le> 665616802 / 10 ^ 9"
      by (simp add: sin_poly_def power_divide)
  qed simp
  have m3l: "12328 / 10 ^ 4 \<le> M2_nb * sin r"
  proof -
    have "(12328 / 10 ^ 4 :: real) \<le> (185284489 / 10 ^ 8) * (665385418 / 10 ^ 9)" by simp
    also have "\<dots> \<le> M2_nb * sin r"
      using M2_bounds(1) sl by (intro mult_mono) (auto intro: order_trans [rotated])
    finally show ?thesis .
  qed
  have m3u: "M2_nb * sin r \<le> 12333 / 10 ^ 4"
  proof -
    have "M2_nb * sin r \<le> (185286085 / 10 ^ 8) * (665616802 / 10 ^ 9)"
      using M2_bounds sl su by (intro mult_mono) (auto intro: order_trans [rotated])
    also have "\<dots> \<le> (12333 / 10 ^ 4 :: real)" by simp
    finally show ?thesis .
  qed
  have m3: "\<bar>M2_nb * sin r - 1.233\<bar> < 0.0005"
    by (rule abs_diff_less [OF m3l m3u]) simp_all
  have "(12333 / 10 ^ 4 :: real) < 12618681394 / 10 ^ 10" by simp
  with m3u M1n_bounds(1) have lt: "M2_nb * sin r < M1n_nb" by linarith
  show ?thesis
    using run d m2 t2 b m1 m3 lt by (intro exI [of _ ?s]) simp
qed

theorem oblique_shock_values_witness:
  "\<exists>s. oblique_shock (root_scalar 100 (2 / 10 ^ 12)) = Inr s
        \<and> \<bar>np_degrees (delta s) - 9.21\<bar> < 0.005
        \<and> \<bar>M2 s - 1.85\<bar> < 0.005
        \<and> \<bar>np_degrees (theta_2 s) - 41.7\<bar> < 0.05
        \<and> \<bar>np_degrees (beta s) - 32.5\<bar> < 0.05
        \<and> \<bar>M1n s - 1.262\<bar> < 0.0005
        \<and> \<bar>M3n s - 1.233\<bar> < 0.0005
        \<and> M3n s < M1n s"
proof -
  obtain res where res:
    "root_scalar 100 (2 / 10 ^ 12) (\<lambda>th. oblique th M2_nb delta_nb 1.4)
       (np_radians 0.0001) (np_radians 45.0) = Inr res"
    "accurate_root (\<lambda>th. oblique th M2_nb delta_nb 1.4)
       (np_radians 0.0001) (np_radians 45.0) (2 / 10 ^ 12) (root res)"
    using oblique_bisection by blast
  have "(2 / 10 ^ 12 :: real) \<le> 1 / 10 ^ 4" by simp
  from oblique_shock_values [where solve = "root_scalar 100 (2 / 10 ^ 12)", OF res this] show ?thesis .
qed

end
